theory Spec2Isabelle
  imports Main "HOL-Library.Word"
begin

section \<open>Strings and the slug generator (server/models/Post.js)\<close>

text \<open>
  JavaScript strings are modelled as \<^typ>\<open>string\<close>, one \<^typ>\<open>char\<close> per
  character of an ASCII title. \<open>toLowerCase\<close> maps \<open>A\<close>..\<open>Z\<close> to \<open>a\<close>..\<open>z\<close> and
  leaves every other character alone; the regular expression class \<open>\w\<close> (without the
  \<open>u\<close> or \<open>i\<close> flag) is \<open>[A-Za-z0-9_]\<close>.
\<close>

definition toLowerCase_char :: "char \<Rightarrow> char" where
  "toLowerCase_char c =
     (case map_of (zip ''ABCDEFGHIJKLMNOPQRSTUVWXYZ'' ''abcdefghijklmnopqrstuvwxyz'') c of
        Some d \<Rightarrow> d
      | None \<Rightarrow> c)"

definition toLowerCase :: "string \<Rightarrow> string" where
  "toLowerCase s = map toLowerCase_char s"

definition is_word_char :: "char \<Rightarrow> bool" where
  "is_word_char c \<longleftrightarrow>
     c \<in> set ''abcdefghijklmnopqrstuvwxyzABCDEFGHIJKLMNOPQRSTUVWXYZ0123456789_''"

text \<open>
  \<open>s.replace(/[cls]+/g, rep)\<close> for a character class \<open>cls\<close> and a replacement text
  without \<open>$\<close> patterns: scanning from the left, every maximal run of characters of
  the class is one match and is replaced by \<open>rep\<close>; the other characters are copied.
\<close>

function replace_runs :: "(char \<Rightarrow> bool) \<Rightarrow> string \<Rightarrow> string \<Rightarrow> string" where
  "replace_runs cls rep [] = []"
| "replace_runs cls rep (c # cs) =
     (if cls c then rep @ replace_runs cls rep (dropWhile cls cs)
      else c # replace_runs cls rep cs)"
  by pat_completeness auto
termination
  by (relation "measure (\<lambda>(cls, rep, s). length s)")
     (auto simp: length_dropWhile_le le_imp_less_Suc)

text \<open>
  \<^verbatim>\<open>const generateSlug = (title) => title.toLowerCase()
       .replace(/[^\w ]+/g, '').replace(/ +/g, '-');\<close>
\<close>

definition generateSlug :: "string \<Rightarrow> string" where
  "generateSlug title =
     replace_runs (\<lambda>c. c = CHR '' '') ''-''
       (replace_runs (\<lambda>c. \<not> (is_word_char c \<or> c = CHR '' '')) ''''
          (toLowerCase title))"

text \<open>
  The derivation in the words of the specification: lowercase, keep only word
  characters and spaces, then turn each run of spaces into one hyphen.
\<close>

fun collapse_spaces :: "string \<Rightarrow> string" where
  "collapse_spaces [] = []"
| "collapse_spaces [c] = (if c = CHR '' '' then ''-'' else [c])"
| "collapse_spaces (c # d # cs) =
     (if c = CHR '' '' then
        (if d = CHR '' '' then collapse_spaces (d # cs)
         else CHR ''-'' # collapse_spaces (d # cs))
      else c # collapse_spaces (d # cs))"

definition spec_deriveSlug :: "string \<Rightarrow> string" where
  "spec_deriveSlug title =
     collapse_spaces
       (filter (\<lambda>c. is_word_char c \<or> c = CHR '' '') (map toLowerCase_char title))"



section \<open>Data model (server/models/Post.js)\<close>

text \<open>
  An ObjectId is represented by the 24 lower-case hexadecimal digits that the server
  prints for it; stored ids are in this form and two stored ids are equal when the
  strings are. A string from a request is cast before it is compared:
  \<open>mongoose.Types.ObjectId.isValid\<close> accepts a string of 24 hexadecimal digits in
  either case (driver versions before 5 also accept any string of 12 characters; the
  definition follows the current driver), and the cast value is the lower-case
  spelling. Image payloads are byte sequences. A field of a request body that the
  handlers compare with \<open>===\<close> keeps its JavaScript type; the text fields are strings
  when present.
\<close>

type_synonym objectId = string
type_synonym buffer = "8 word list"

datatype jsval = JUndefined | JNull | JBool bool | JNum int | JStr string

definition isValidObjectId :: "string \<Rightarrow> bool" where
  "isValidObjectId s \<longleftrightarrow>
     length s = 24 \<and> list_all (\<lambda>c. c \<in> set ''0123456789abcdefABCDEF'') s"

definition castObjectId :: "string \<Rightarrow> objectId" where
  "castObjectId s = toLowerCase s"

record image =
  img_data :: "buffer option"
  contentType :: string
  filename :: string

record comment =
  c_user :: objectId
  c_content :: string
  c_createdAt :: nat

record post =
  p_id :: objectId
  title :: string
  content :: string
  featuredImage :: "image option"
  slug :: string
  excerpt :: "string option"
  author :: objectId
  category :: objectId
  tags :: "string list"
  isPublished :: bool
  viewCount :: int
  comments :: "comment list"
  createdAt :: nat
  updatedAt :: nat

text \<open>
  The database: the posts collection in insertion order, and the two collections that
  \<open>populate\<close> reads (user names and category names by id).
\<close>

record db =
  posts :: "post list"
  users :: "(objectId \<times> string) list"
  categories :: "(objectId \<times> string) list"

text \<open>
  The outcomes of the error taxonomy with the status code each handler sends.
  A Mongoose validation or cast error is caught by the handlers' \<open>catch\<close> blocks and
  answered with status 500.
\<close>

datatype error = ValidationError | DuplicateSlug | Forbidden | NotFound | InternalError

fun http_status :: "error \<Rightarrow> nat" where
  "http_status ValidationError = 400"
| "http_status DuplicateSlug = 400"
| "http_status Forbidden = 403"
| "http_status NotFound = 404"
| "http_status InternalError = 500"

text \<open>The authenticated principal that the \<open>auth\<close> middleware puts in \<open>req.user\<close>.\<close>

record principal =
  user_id :: objectId
  role :: string

text \<open>The file that \<open>upload.single('featuredImage')\<close> puts in \<open>req.file\<close>.\<close>

record file_upload =
  file_buffer :: buffer
  mimetype :: string
  originalname :: string

text \<open>The fields the create and update handlers read from \<open>req.body\<close>.\<close>

record post_body =
  b_title :: "string option"
  b_content :: "string option"
  b_excerpt :: "string option"
  b_category :: "string option"
  b_tags :: "string option"
  b_isPublished :: jsval
  b_removeFeaturedImage :: jsval


section \<open>Persistence primitives\<close>

text \<open>
  \<open>Post.findById\<close> casts its argument to an ObjectId and rejects with a CastError when
  the string is malformed; \<open>Post.findOne({ slug })\<close> compares slugs.
\<close>

definition findById :: "post list \<Rightarrow> string \<Rightarrow> error + post option" where
  "findById ps i =
     (if isValidObjectId i then Inr (find (\<lambda>p. p_id p = castObjectId i) ps)
      else Inl InternalError)"

definition findOne_slug :: "post list \<Rightarrow> string \<Rightarrow> post option" where
  "findOne_slug ps s = find (\<lambda>p. slug p = s) ps"

text \<open>
  \<open>findByIdAndUpdate\<close>, \<open>findByIdAndDelete\<close> and the write of \<open>save()\<close> act on the
  first document that matches.
\<close>

fun update_first :: "('a \<Rightarrow> bool) \<Rightarrow> ('a \<Rightarrow> 'a) \<Rightarrow> 'a list \<Rightarrow> 'a list" where
  "update_first P f [] = []"
| "update_first P f (x # xs) = (if P x then f x # xs else x # update_first P f xs)"

fun delete_first :: "('a \<Rightarrow> bool) \<Rightarrow> 'a list \<Rightarrow> 'a list" where
  "delete_first P [] = []"
| "delete_first P (x # xs) = (if P x then xs else x # delete_first P xs)"

text \<open>
  Number to string conversion of the template literal
  \<^verbatim>\<open>`${originalSlug}-${counter}`\<close>: the decimal digits of the counter.
\<close>

definition digit_char :: "nat \<Rightarrow> char" where
  "digit_char d = ''0123456789'' ! d"

fun show_nat :: "nat \<Rightarrow> string" where
  "show_nat n = (if n < 10 then [digit_char n] else show_nat (n div 10) @ [digit_char (n mod 10)])"

declare show_nat.simps [simp del]

definition suffixed :: "string \<Rightarrow> nat \<Rightarrow> string" where
  "suffixed originalSlug counter = originalSlug @ ''-'' @ show_nat counter"


text \<open>
  \<^verbatim>\<open>PostSchema.statics.generateUniqueSlug = async function (title) {
    let slug = generateSlug(title); let counter = 1; let originalSlug = slug;
    while (await this.findOne({ slug })) { slug = `${originalSlug}-${counter}`; counter++; }
    return slug; }\<close>
\<close>

definition slug_taken :: "post list \<Rightarrow> string \<Rightarrow> bool" where
  "slug_taken ps s \<longleftrightarrow> findOne_slug ps s \<noteq> None"

function unique_loop :: "post list \<Rightarrow> string \<Rightarrow> string \<Rightarrow> nat \<Rightarrow> string" where
  "unique_loop ps originalSlug s counter =
     (if slug_taken ps s
      then unique_loop ps originalSlug (suffixed originalSlug counter) (counter + 1)
      else s)"
  by pat_completeness auto

text \<open>
  The loop ends because the collection is finite and the decimal rendering of the
  counter is injective: only finitely many suffixed slugs are taken.
\<close>

lemma digit_char_inj: "a < 10 \<Longrightarrow> b < 10 \<Longrightarrow> digit_char a = digit_char b \<Longrightarrow> a = b"
proof -
  assume a: "a < 10" and b: "b < 10" and e: "digit_char a = digit_char b"
  have A: "a \<in> {0,1,2,3,4,5,6,7,8,9}" using a by auto
  have B: "b \<in> {0,1,2,3,4,5,6,7,8,9}" using b by auto
  from A B e show ?thesis
    by (auto simp: digit_char_def)
qed

lemma show_nat_nonempty: "show_nat n \<noteq> []"
  by (subst show_nat.simps) simp

lemma show_nat_inj: "show_nat m = show_nat n \<Longrightarrow> m = n"
proof (induction m arbitrary: n rule: show_nat.induct)
  case (1 m)
  show ?case
  proof (cases "m < 10")
    case True
    note m = this
    show ?thesis
    proof (cases "n < 10")
      case True
      with m "1.prems" show ?thesis
        by (simp add: show_nat.simps[of m] show_nat.simps[of n] digit_char_inj)
    next
      case False
      with m "1.prems" show ?thesis
        using show_nat_nonempty[of "n div 10"]
        by (simp add: show_nat.simps[of m] show_nat.simps[of n])
    qed
  next
    case False
    note m = this
    show ?thesis
    proof (cases "n < 10")
      case True
      with m "1.prems" show ?thesis
        using show_nat_nonempty[of "m div 10"]
        by (simp add: show_nat.simps[of m] show_nat.simps[of n])
    next
      case False
      with m "1.prems" have e: "show_nat (m div 10) = show_nat (n div 10)"
        and d: "digit_char (m mod 10) = digit_char (n mod 10)"
        by (simp_all add: show_nat.simps[of m] show_nat.simps[of n])
      from "1.IH"[OF m e] have "m div 10 = n div 10" .
      moreover from d have "m mod 10 = n mod 10"
        by (intro digit_char_inj) simp_all
      ultimately show ?thesis
        by (metis div_mult_mod_eq)
    qed
  qed
qed

lemma suffixed_inj: "suffixed s m = suffixed s n \<Longrightarrow> m = n"
  by (simp add: suffixed_def show_nat_inj)

lemma slug_taken_iff: "slug_taken ps s \<longleftrightarrow> s \<in> slug ` set ps"
  by (auto simp: slug_taken_def findOne_slug_def find_None_iff image_iff)

lemma finite_taken_from: "finite {k. c \<le> k \<and> slug_taken ps (suffixed orig k)}"
proof -
  have "{k. c \<le> k \<and> slug_taken ps (suffixed orig k)} \<subseteq> suffixed orig -` (slug ` set ps)"
    by (auto simp: slug_taken_iff)
  moreover have "finite (suffixed orig -` (slug ` set ps))"
    by (rule finite_vimageI) (auto simp: inj_on_def dest: suffixed_inj)
  ultimately show ?thesis by (rule finite_subset)
qed

lemma taken_from_split:
  "{k. c \<le> k \<and> slug_taken ps (suffixed orig k)} =
   (if slug_taken ps (suffixed orig c) then {c} else {}) \<union>
   {k. Suc c \<le> k \<and> slug_taken ps (suffixed orig k)}"
  by (auto simp: Suc_le_eq le_less)

termination unique_loop
proof (relation "measure (\<lambda>(ps, orig, s, c).
         (if slug_taken ps s then 1 else 0) +
         card {k. c \<le> k \<and> slug_taken ps (suffixed orig k)})")
  show "wf (measure (\<lambda>(ps, orig, s, c).
         (if slug_taken ps s then 1 else 0) +
         card {k. c \<le> k \<and> slug_taken ps (suffixed orig k)}))"
    by simp
next
  fix ps :: "post list" and originalSlug s :: string and counter :: nat
  assume t: "slug_taken ps s"
  let ?A = "\<lambda>c. {k. c \<le> k \<and> slug_taken ps (suffixed originalSlug k)}"
  have "card (?A counter) =
        (if slug_taken ps (suffixed originalSlug counter) then 1 else 0) + card (?A (Suc counter))"
  proof (cases "slug_taken ps (suffixed originalSlug counter)")
    case True
    then have "?A counter = insert counter (?A (Suc counter))"
      by (subst taken_from_split) simp
    moreover have "counter \<notin> ?A (Suc counter)" by simp
    ultimately show ?thesis
      using True finite_taken_from[of "Suc counter" ps originalSlug]
      by simp
  next
    case False
    then have "?A counter = ?A (Suc counter)"
      by (subst taken_from_split) simp
    with False show ?thesis by simp
  qed
  with t show "((ps, originalSlug, suffixed originalSlug counter, counter + 1),
                (ps, originalSlug, s, counter)) \<in> measure (\<lambda>(ps, orig, s, c).
         (if slug_taken ps s then 1 else 0) +
         card {k. c \<le> k \<and> slug_taken ps (suffixed orig k)})"
    by simp
qed

declare unique_loop.simps [simp del]

definition generateUniqueSlug :: "post list \<Rightarrow> string \<Rightarrow> string" where
  "generateUniqueSlug ps t = (let s = generateSlug t in unique_loop ps s s 1)"


section \<open>Schema validation and the save hook\<close>

text \<open>
  The validators of \<open>PostSchema\<close>: \<open>title\<close>, \<open>content\<close>, \<open>slug\<close>, \<open>author\<close> and
  \<open>category\<close> are required (an empty string does not satisfy \<open>required\<close>), the two
  references must cast to ObjectIds, \<open>title\<close> has at most 100 and \<open>excerpt\<close> at most 200
  characters, and every comment needs a content.
\<close>

definition schema_valid :: "post \<Rightarrow> bool" where
  "schema_valid p \<longleftrightarrow>
     title p \<noteq> [] \<and> length (title p) \<le> 100 \<and> content p \<noteq> [] \<and> slug p \<noteq> [] \<and>
     (case excerpt p of None \<Rightarrow> True | Some e \<Rightarrow> length e \<le> 200) \<and>
     isValidObjectId (author p) \<and> isValidObjectId (category p) \<and>
     list_all (\<lambda>c. c_content c \<noteq> [] \<and> isValidObjectId (c_user c)) (comments p)"

text \<open>
  \<^verbatim>\<open>PostSchema.pre('save', function (next) {
    if (!this.slug || this.isModified('title')) { this.slug = generateSlug(this.title); }
    next(); });\<close>
  The flag says whether \<open>isModified('title')\<close> holds; it does on a new document whose
  title was set by the constructor, and it does not on a loaded document whose title
  was not assigned.
\<close>

definition pre_save :: "bool \<Rightarrow> post \<Rightarrow> post" where
  "pre_save title_modified p =
     (if slug p = [] \<or> title_modified then p\<lparr>slug := generateSlug (title p)\<rparr> else p)"

text \<open>
  Inserting a document: the unique indexes on \<open>_id\<close> and on \<open>slug\<close> reject a duplicate
  with error code 11000.
\<close>

definition insert_post :: "post list \<Rightarrow> post \<Rightarrow> error + post list" where
  "insert_post ps p =
     (if list_ex (\<lambda>q. p_id q = p_id p \<or> slug q = slug p) ps then Inl DuplicateSlug
      else Inr (ps @ [p]))"

text \<open>
  \<open>save()\<close> validates the document, then runs the \<open>pre('save')\<close> hook, then writes.
\<close>

definition save_new :: "post list \<Rightarrow> post \<Rightarrow> error + (post list \<times> post)" where
  "save_new ps p =
     (if \<not> schema_valid p then Inl InternalError
      else let p' = pre_save True p in
           case insert_post ps p' of
             Inl e \<Rightarrow> Inl e
           | Inr ps' \<Rightarrow> Inr (ps', p'))"



section \<open>Response payloads\<close>

text \<open>
  \<open>.select('-featuredImage.data')\<close> drops the image bytes from a document;
  \<open>populate\<close> looks the referenced user and category up (\<open>null\<close> when there is none);
  the handlers add \<open>hasFeaturedImage: !!post.featuredImage\<close>. The schema declares
  \<open>featuredImage\<close> as a nested path (\<open>{ data, contentType, filename }\<close>, not a
  subdocument), and the getter of a nested path returns an object for every document,
  whether or not any of its fields is stored; so the flag is true for every post.
\<close>

definition nested_path_truthy :: "image option \<Rightarrow> bool" where
  "nested_path_truthy im = True"

definition exclude_image_data :: "post \<Rightarrow> post" where
  "exclude_image_data p =
     p\<lparr>featuredImage := map_option (\<lambda>im. im\<lparr>img_data := None\<rparr>) (featuredImage p)\<rparr>"

record post_view =
  v_post :: post
  v_author :: "string option"
  v_category :: "string option"
  hasFeaturedImage :: bool

definition post_view_of :: "db \<Rightarrow> post \<Rightarrow> post_view" where
  "post_view_of st p =
     \<lparr>v_post = exclude_image_data p,
      v_author = map_of (users st) (author p),
      v_category = map_of (categories st) (category p),
      hasFeaturedImage = nested_path_truthy (featuredImage (exclude_image_data p))\<rparr>"

record comment_view =
  cv_user :: "(objectId \<times> string) option"
  cv_content :: string
  cv_createdAt :: nat

definition populate_comment :: "db \<Rightarrow> comment \<Rightarrow> comment_view" where
  "populate_comment st c =
     \<lparr>cv_user = map_option (\<lambda>n. (c_user c, n)) (map_of (users st) (c_user c)),
      cv_content = c_content c,
      cv_createdAt = c_createdAt c\<rparr>"


section \<open>Request parsing helpers\<close>

definition is_js_space :: "char \<Rightarrow> bool" where
  "is_js_space c \<longleftrightarrow> c \<in> set [CHR '' '', CHR 0x09, CHR 0x0A, CHR 0x0B, CHR 0x0C, CHR 0x0D]"

definition trim :: "string \<Rightarrow> string" where
  "trim s = rev (dropWhile is_js_space (rev (dropWhile is_js_space s)))"

fun split_on :: "char \<Rightarrow> string \<Rightarrow> string list" where
  "split_on sep [] = [[]]"
| "split_on sep (c # cs) =
     (if c = sep then [] # split_on sep cs
      else (case split_on sep cs of [] \<Rightarrow> [[c]] | w # ws \<Rightarrow> (c # w) # ws))"

text \<open>\<^verbatim>\<open>tags ? tags.split(',').map(tag => tag.trim()).filter(tag => tag) : []\<close>\<close>

definition parse_tags :: "string option \<Rightarrow> string list" where
  "parse_tags t =
     (case t of
        None \<Rightarrow> []
      | Some s \<Rightarrow> if s = [] then [] else filter (\<lambda>w. w \<noteq> []) (map trim (split_on CHR '','' s)))"

text \<open>\<^verbatim>\<open>isPublished === 'true' || isPublished === true\<close>\<close>

definition is_true_flag :: "jsval \<Rightarrow> bool" where
  "is_true_flag v \<longleftrightarrow> v = JStr ''true'' \<or> v = JBool True"

text \<open>
  JavaScript numbers are doubles. The handlers only form them from integers, so a
  number is \<open>NaN\<close>, an infinity, or an integer that a double represents exactly.
  \<open>round_double\<close> takes an integer to the nearest double (ties to the even
  significand of 53 bits; beyond the largest double the result is an infinity).
\<close>

datatype js_number = NaN | Num int | PosInfinity | NegInfinity

fun bit_length :: "nat \<Rightarrow> nat" where
  "bit_length n = (if n = 0 then 0 else Suc (bit_length (n div 2)))"

declare bit_length.simps [simp del]

definition round_double :: "int \<Rightarrow> js_number" where
  "round_double n =
     (let a = nat \<bar>n\<bar> in
      if a < 2 ^ 53 then Num n
      else
        let k = bit_length a - 53;
            q = a div 2 ^ k;
            r = a mod 2 ^ k;
            q' = (if 2 ^ (k - 1) < r \<or> (r = 2 ^ (k - 1) \<and> odd q) then q + 1 else q);
            m = q' * 2 ^ k
        in if 2 ^ 1024 \<le> m then (if n < 0 then NegInfinity else PosInfinity)
           else Num (if n < 0 then - int m else int m))"

text \<open>
  \<open>parseInt\<close> of a query parameter: leading white space is skipped, a sign is read, a
  \<open>0x\<close> prefix selects radix 16, and the longest run of digits is the value, rounded
  to a double; without a digit the result is \<open>NaN\<close>. An absent parameter is
  \<open>undefined\<close> and parses to \<open>NaN\<close>.
\<close>

definition digit_of :: "char \<Rightarrow> nat option" where
  "digit_of c = map_of (zip ''0123456789'' [0, 1, 2, 3, 4, 5, 6, 7, 8, 9]) c"

definition hex_digit_of :: "char \<Rightarrow> nat option" where
  "hex_digit_of c =
     map_of (zip ''0123456789abcdefABCDEF''
       [0, 1, 2, 3, 4, 5, 6, 7, 8, 9, 10, 11, 12, 13, 14, 15, 10, 11, 12, 13, 14, 15]) c"

definition parseInt :: "string option \<Rightarrow> js_number" where
  "parseInt q =
     (case q of
        None \<Rightarrow> NaN
      | Some s \<Rightarrow>
          let s1 = dropWhile is_js_space s;
              negative = (take 1 s1 = ''-'');
              s2 = (if take 1 s1 = ''-'' \<or> take 1 s1 = ''+'' then drop 1 s1 else s1);
              hex = (take 2 s2 = ''0x'' \<or> take 2 s2 = ''0X'');
              s3 = (if hex then drop 2 s2 else s2);
              radix = (if hex then 16 else 10);
              ds = map the (takeWhile (\<lambda>d. d \<noteq> None)
                     (map (if hex then hex_digit_of else digit_of) s3));
              n = int (foldl (\<lambda>a d. a * radix + d) 0 ds)
          in if ds = [] then NaN else round_double (if negative then - n else n))"

text \<open>
  \<^verbatim>\<open>parseInt(x) || d\<close>: \<open>NaN\<close> and \<open>0\<close> are falsy, every other number (a negative
  one and an infinity too) is kept.
\<close>

definition or_default :: "js_number \<Rightarrow> int \<Rightarrow> js_number" where
  "or_default v d =
     (case v of NaN \<Rightarrow> Num d | Num n \<Rightarrow> if n = 0 then Num d else Num n | x \<Rightarrow> x)"

definition page_of :: "string option \<Rightarrow> js_number" where
  "page_of q = or_default (parseInt q) 1"

definition limit_of :: "string option \<Rightarrow> js_number" where
  "limit_of q = or_default (parseInt q) 10"

text \<open>
  \<^verbatim>\<open>const skip = (page - 1) * limit;\<close> in double arithmetic: each operation gives
  the double nearest to the exact result; an infinity stays an infinity, and zero times
  an infinity is \<open>NaN\<close>.
\<close>

definition js_sign :: "js_number \<Rightarrow> int" where
  "js_sign x = (case x of NaN \<Rightarrow> 0 | Num n \<Rightarrow> sgn n | PosInfinity \<Rightarrow> 1 | NegInfinity \<Rightarrow> - 1)"

definition js_minus_one :: "js_number \<Rightarrow> js_number" where
  "js_minus_one x = (case x of Num n \<Rightarrow> round_double (n - 1) | y \<Rightarrow> y)"

definition js_times :: "js_number \<Rightarrow> js_number \<Rightarrow> js_number" where
  "js_times x y =
     (case (x, y) of
        (Num a, Num b) \<Rightarrow> round_double (a * b)
      | _ \<Rightarrow>
          if x = NaN \<or> y = NaN \<or> js_sign x * js_sign y = 0 then NaN
          else if 0 < js_sign x * js_sign y then PosInfinity
          else NegInfinity)"

definition skip_of :: "js_number \<Rightarrow> js_number \<Rightarrow> js_number" where
  "skip_of pg lim = js_times (js_minus_one pg) lim"


section \<open>Route handlers (server/routes/posts.js)\<close>

definition image_of_file :: "file_upload \<Rightarrow> image" where
  "image_of_file f =
     \<lparr>img_data = Some (file_buffer f), contentType = mimetype f, filename = originalname f\<rparr>"

subsection \<open>POST /api/posts\<close>

text \<open>
  The route runs \<open>auth\<close> and \<open>upload.single('featuredImage')\<close>; no validation chain is
  attached to it, so \<open>validationResult(req)\<close> is empty. The handler computes a unique
  slug from the title as sent, builds the document and saves it. A missing title makes
  \<open>title.toLowerCase()\<close> throw, which the \<open>catch\<close> block answers with status 500, as it
  does a validation error; error code 11000 is answered with status 400. The id of the
  new document and the current time are parameters. The response leaves
  \<open>featuredImage\<close> out.
\<close>

definition new_document ::
  "post list \<Rightarrow> principal \<Rightarrow> post_body \<Rightarrow> file_upload option \<Rightarrow> objectId \<Rightarrow> nat \<Rightarrow> string \<Rightarrow> post"
where
  "new_document ps user body file new_id now t =
     \<lparr>p_id = new_id,
      title = trim t,
      content = (case b_content body of None \<Rightarrow> [] | Some c \<Rightarrow> c),
      featuredImage = map_option image_of_file file,
      slug = generateUniqueSlug ps t,
      excerpt = b_excerpt body,
      author = castObjectId (user_id user),
      category = (case b_category body of None \<Rightarrow> [] | Some c \<Rightarrow> castObjectId c),
      tags = parse_tags (b_tags body),
      isPublished = is_true_flag (b_isPublished body),
      viewCount = 0,
      comments = [],
      createdAt = now,
      updatedAt = now\<rparr>"

definition created_view :: "db \<Rightarrow> post \<Rightarrow> post_view" where
  "created_view st p =
     \<lparr>v_post = p\<lparr>featuredImage := None\<rparr>,
      v_author = map_of (users st) (author p),
      v_category = map_of (categories st) (category p),
      hasFeaturedImage = nested_path_truthy (featuredImage p)\<rparr>"

definition create_post ::
  "db \<Rightarrow> principal \<Rightarrow> post_body \<Rightarrow> file_upload option \<Rightarrow> objectId \<Rightarrow> nat \<Rightarrow> error + (db \<times> post_view)"
where
  "create_post st user body file new_id now =
     (case b_title body of
        None \<Rightarrow> Inl InternalError
      | Some t \<Rightarrow>
          (case save_new (posts st) (new_document (posts st) user body file new_id now t) of
             Inl e \<Rightarrow> Inl e
           | Inr (ps', p) \<Rightarrow> Inr (st\<lparr>posts := ps'\<rparr>, created_view st p)))"

subsection \<open>GET /api/posts\<close>

text \<open>
  The route runs \<open>auth\<close> first; the handler reads \<open>page\<close>, \<open>limit\<close> and \<open>category\<close> from the
  query string.
  \<open>Post.find(query).sort({ createdAt: -1 }).skip(skip).limit(limit)\<close>: the matching
  documents, newest first (documents of equal creation time keep their stored order
  here), then the window. The query fails when skip or limit is not a number that fits
  64 bits, and the server rejects a negative skip; the driver sends a negative limit
  as its absolute value, and a limit of zero means no limit.
\<close>

definition newest_first :: "post list \<Rightarrow> post list" where
  "newest_first ps = sort_key (\<lambda>p. - int (createdAt p)) ps"

definition find_window ::
  "post list \<Rightarrow> (post \<Rightarrow> bool) \<Rightarrow> js_number \<Rightarrow> js_number \<Rightarrow> error + post list"
where
  "find_window ps query skip lim =
     (case (skip, lim) of
        (Num s, Num l) \<Rightarrow>
          if s < 0 \<or> 2 ^ 63 \<le> s \<or> 2 ^ 63 \<le> \<bar>l\<bar> then Inl InternalError
          else let sorted_docs = drop (nat s) (newest_first (filter query ps)) in
               Inr (if l = 0 then sorted_docs else take (nat \<bar>l\<bar>) sorted_docs)
      | _ \<Rightarrow> Inl InternalError)"

text \<open>
  \<^verbatim>\<open>let query = { isPublished: true }; if (category) { query.category = category; }\<close>
  A category that does not cast to an ObjectId makes the query fail.
\<close>

definition list_query :: "string option \<Rightarrow> error + (post \<Rightarrow> bool)" where
  "list_query cat =
     (case cat of
        None \<Rightarrow> Inr (\<lambda>p. isPublished p)
      | Some c \<Rightarrow>
          if c = [] then Inr (\<lambda>p. isPublished p)
          else if isValidObjectId c then Inr (\<lambda>p. isPublished p \<and> category p = castObjectId c)
          else Inl InternalError)"

record list_response =
  r_data :: "post_view list"
  r_page :: js_number
  r_limit :: js_number
  r_total :: int
  r_pages :: js_number

text \<open>
  \<open>Math.ceil(total / limit)\<close> for a document count \<open>total\<close> (below \<open>2^53\<close>, where the
  rounding of the quotient does not change its ceiling).
\<close>

definition ceil_div :: "int \<Rightarrow> int \<Rightarrow> int" where
  "ceil_div a b = - ((- a) div b)"

definition pages_of :: "int \<Rightarrow> js_number \<Rightarrow> js_number" where
  "pages_of cnt lim =
     (case lim of
        NaN \<Rightarrow> NaN
      | Num l \<Rightarrow>
          if l = 0 then (if cnt = 0 then NaN else PosInfinity) else Num (ceil_div cnt l)
      | _ \<Rightarrow> Num 0)"

definition list_posts ::
  "db \<Rightarrow> string option \<Rightarrow> string option \<Rightarrow> string option \<Rightarrow> error + list_response"
where
  "list_posts st q_page q_limit q_category =
     (let pg = page_of q_page; lim = limit_of q_limit; skip = skip_of pg lim in
      case list_query q_category of
        Inl e \<Rightarrow> Inl e
      | Inr query \<Rightarrow>
          (case find_window (posts st) query skip lim of
             Inl e \<Rightarrow> Inl e
           | Inr docs \<Rightarrow>
               let total = int (length (filter query (posts st))) in
               Inr \<lparr>r_data = map (post_view_of st) docs, r_page = pg, r_limit = lim,
                    r_total = total, r_pages = pages_of total lim\<rparr>))"

subsection \<open>GET /api/posts/:id\<close>

text \<open>
  The identifier is looked up as an id when it has the shape of an ObjectId and as a
  slug otherwise. The response is built from the document as read; then
  \<open>findByIdAndUpdate(post._id, { $inc: { viewCount: 1 } })\<close> adds one to the stored
  counter (and, with \<open>timestamps\<close>, sets \<open>updatedAt\<close>).
\<close>

definition lookup_post :: "post list \<Rightarrow> string \<Rightarrow> post option" where
  "lookup_post ps ident =
     (if isValidObjectId ident then find (\<lambda>p. p_id p = castObjectId ident) ps
      else findOne_slug ps ident)"

definition inc_viewCount :: "nat \<Rightarrow> objectId \<Rightarrow> post list \<Rightarrow> post list" where
  "inc_viewCount now i ps =
     update_first (\<lambda>p. p_id p = i) (\<lambda>p. p\<lparr>viewCount := viewCount p + 1, updatedAt := now\<rparr>) ps"

definition get_post ::
  "db \<Rightarrow> string \<Rightarrow> nat \<Rightarrow> error + (db \<times> post_view \<times> comment_view list)"
where
  "get_post st ident now =
     (case lookup_post (posts st) ident of
        None \<Rightarrow> Inl NotFound
      | Some p \<Rightarrow>
          Inr (st\<lparr>posts := inc_viewCount now (p_id p) (posts st)\<rparr>,
               post_view_of st p, map (populate_comment st) (comments p)))"

subsection \<open>GET /api/posts/:id/image\<close>

text \<open>
  \<^verbatim>\<open>if (!post || !post.featuredImage || !post.featuredImage.data) return 404\<close>;
  otherwise the stored content type is set and the stored buffer is sent.
\<close>

definition get_image :: "db \<Rightarrow> string \<Rightarrow> error + (string \<times> buffer)" where
  "get_image st i =
     (case findById (posts st) i of
        Inl e \<Rightarrow> Inl e
      | Inr None \<Rightarrow> Inl NotFound
      | Inr (Some p) \<Rightarrow>
          (case featuredImage p of
             None \<Rightarrow> Inl NotFound
           | Some im \<Rightarrow>
               (case img_data im of
                  None \<Rightarrow> Inl NotFound
                | Some bytes \<Rightarrow> Inr (contentType im, bytes))))"

subsection \<open>PUT /api/posts/:id and DELETE /api/posts/:id\<close>

text \<open>
  \<^verbatim>\<open>if (post.author.toString() !== req.user.id && req.user.role !== 'admin') return 403\<close>
\<close>

definition canMutate :: "post \<Rightarrow> principal \<Rightarrow> bool" where
  "canMutate p user \<longleftrightarrow> \<not> (author p \<noteq> user_id user \<and> role user \<noteq> ''admin'')"

text \<open>
  \<open>updateData\<close> holds \<open>title\<close>, \<open>content\<close>, \<open>excerpt\<close> and \<open>category\<close> as sent (a field that
  is \<open>undefined\<close> is left out of the update), always \<open>tags\<close> and \<open>isPublished\<close>, and
  \<open>featuredImage\<close> when a file was uploaded or removal was asked for. With
  \<open>runValidators\<close> the validators run on the fields that are set.
\<close>

definition update_valid :: "post_body \<Rightarrow> bool" where
  "update_valid body \<longleftrightarrow>
     (case b_title body of None \<Rightarrow> True | Some t \<Rightarrow> trim t \<noteq> [] \<and> length (trim t) \<le> 100) \<and>
     (case b_content body of None \<Rightarrow> True | Some c \<Rightarrow> c \<noteq> []) \<and>
     (case b_excerpt body of None \<Rightarrow> True | Some e \<Rightarrow> length e \<le> 200) \<and>
     (case b_category body of None \<Rightarrow> True | Some c \<Rightarrow> isValidObjectId c)"

definition apply_update :: "post_body \<Rightarrow> file_upload option \<Rightarrow> nat \<Rightarrow> post \<Rightarrow> post" where
  "apply_update body file now p =
     p\<lparr>title := (case b_title body of None \<Rightarrow> title p | Some t \<Rightarrow> trim t),
       content := (case b_content body of None \<Rightarrow> content p | Some c \<Rightarrow> c),
       excerpt := (case b_excerpt body of None \<Rightarrow> excerpt p | Some e \<Rightarrow> Some e),
       category := (case b_category body of None \<Rightarrow> category p | Some c \<Rightarrow> castObjectId c),
       tags := parse_tags (b_tags body),
       isPublished := is_true_flag (b_isPublished body),
       featuredImage :=
         (case file of
            Some f \<Rightarrow> Some (image_of_file f)
          | None \<Rightarrow>
              if b_removeFeaturedImage body = JStr ''true'' then None else featuredImage p),
       updatedAt := now\<rparr>"

definition update_post ::
  "db \<Rightarrow> principal \<Rightarrow> string \<Rightarrow> post_body \<Rightarrow> file_upload option \<Rightarrow> nat \<Rightarrow> error + (db \<times> post_view)"
where
  "update_post st user i body file now =
     (case findById (posts st) i of
        Inl e \<Rightarrow> Inl e
      | Inr None \<Rightarrow> Inl NotFound
      | Inr (Some p) \<Rightarrow>
          if \<not> canMutate p user then Inl Forbidden
          else if \<not> update_valid body then Inl InternalError
          else Inr (st\<lparr>posts := update_first (\<lambda>q. p_id q = castObjectId i)
                                       (apply_update body file now) (posts st)\<rparr>,
                    post_view_of st (apply_update body file now p)))"

definition delete_post :: "db \<Rightarrow> principal \<Rightarrow> string \<Rightarrow> error + db" where
  "delete_post st user i =
     (case findById (posts st) i of
        Inl e \<Rightarrow> Inl e
      | Inr None \<Rightarrow> Inl NotFound
      | Inr (Some p) \<Rightarrow>
          if \<not> canMutate p user then Inl Forbidden
          else Inr (st\<lparr>posts := delete_first (\<lambda>q. p_id q = castObjectId i) (posts st)\<rparr>))"


subsection \<open>POST /api/posts/:id/comments\<close>



subsection \<open>GET /api/posts/search\<close>

text \<open>
  The handler passes the query text to \<open>$regex\<close> with option \<open>i\<close> and to
  \<open>new RegExp(query, 'i')\<close>. The regular expression engine is a parameter: \<open>rx_ok\<close> says
  whether a pattern compiles (the constructor throws otherwise) and \<open>rx_find\<close> whether
  the pattern, ignoring case, matches somewhere in a text.
\<close>

record regex_engine =
  rx_ok :: "string \<Rightarrow> bool"
  rx_find :: "string \<Rightarrow> string \<Rightarrow> bool"

definition search_query :: "regex_engine \<Rightarrow> string \<Rightarrow> post \<Rightarrow> bool" where
  "search_query rx pat p \<longleftrightarrow>
     isPublished p \<and>
     (rx_find rx pat (title p) \<or> rx_find rx pat (content p) \<or> list_ex (rx_find rx pat) (tags p))"

definition search_posts :: "regex_engine \<Rightarrow> db \<Rightarrow> string option \<Rightarrow> error + post_view list" where
  "search_posts rx st q =
     (case q of
        None \<Rightarrow> Inl ValidationError
      | Some pat \<Rightarrow>
          if pat = [] then Inl ValidationError
          else if \<not> rx_ok rx pat then Inl InternalError
          else
            (case find_window (posts st) (search_query rx pat) (Num 0) (Num 20) of
               Inl e \<Rightarrow> Inl e
             | Inr docs \<Rightarrow> Inr (map (post_view_of st) docs)))"

subsection \<open>The router\<close>

text \<open>
  The routes of the posts router in the order in which the file registers them. A
  request goes to the first route whose method and path pattern match; no handler of
  this router passes the request on. The path is given by its segments after the mount
  point \<open>/api/posts\<close>; \<open>:id\<close> matches any one segment.
\<close>

datatype http_method = GET | POST | PUT | DELETE

datatype segment = Lit string | Param

datatype handler =
  ListPosts | GetPost | GetImage | CreatePost | UpdatePost | DeletePost | AddComment | SearchPosts

definition routes :: "(http_method \<times> segment list \<times> handler) list" where
  "routes =
     [(GET, [], ListPosts),
      (GET, [Param], GetPost),
      (GET, [Param, Lit ''image''], GetImage),
      (POST, [], CreatePost),
      (PUT, [Param], UpdatePost),
      (DELETE, [Param], DeletePost),
      (POST, [Param, Lit ''comments''], AddComment),
      (GET, [Lit ''search''], SearchPosts)]"

fun match_path :: "segment list \<Rightarrow> string list \<Rightarrow> string list option" where
  "match_path [] [] = Some []"
| "match_path (Lit l # pat) (x # xs) = (if l = x then match_path pat xs else None)"
| "match_path (Param # pat) (x # xs) = map_option (\<lambda>vs. x # vs) (match_path pat xs)"
| "match_path _ _ = None"

fun dispatch ::
  "(http_method \<times> segment list \<times> handler) list \<Rightarrow> http_method \<Rightarrow> string list \<Rightarrow>
   (handler \<times> string list) option"
where
  "dispatch [] m path = None"
| "dispatch ((m', pat, h) # rest) m path =
     (if m' = m then
        (case match_path pat path of
           Some params \<Rightarrow> Some (h, params)
         | None \<Rightarrow> dispatch rest m path)
      else dispatch rest m path)"

datatype payload =
  Listing list_response
| Detail post_view "comment_view list"
| ImageBytes string buffer
| SearchResult "post_view list"

text \<open>
  A GET request to the router: the path segments and the query string parameters.
  A path that no route matches falls through to the application's 404 handler.
\<close>

definition serve_get ::
  "regex_engine \<Rightarrow> db \<Rightarrow> string list \<Rightarrow> (string \<times> string) list \<Rightarrow> nat \<Rightarrow> error + (db \<times> payload)"
where
  "serve_get rx st path query now =
     (case dispatch routes GET path of
        Some (ListPosts, _) \<Rightarrow>
          map_sum id (\<lambda>r. (st, Listing r))
            (list_posts st (map_of query ''page'') (map_of query ''limit'') (map_of query ''category''))
      | Some (GetPost, [ident]) \<Rightarrow>
          map_sum id (\<lambda>(st', v, cs). (st', Detail v cs)) (get_post st ident now)
      | Some (GetImage, [ident]) \<Rightarrow>
          map_sum id (\<lambda>(ct, bytes). (st, ImageBytes ct bytes)) (get_image st ident)
      | Some (SearchPosts, _) \<Rightarrow>
          map_sum id (\<lambda>vs. (st, SearchResult vs)) (search_posts rx st (map_of query ''q''))
      | _ \<Rightarrow> Inl NotFound)"


section \<open>Concurrent detail reads\<close>

text \<open>
  Requests are handled independently; each detail read performs two storage
  operations, the lookup and the \<open>$inc\<close> update, and the operations of different
  requests interleave in any order. A request is \<open>Pending\<close> before its lookup,
  \<open>Located\<close> between the two operations and \<open>Finished\<close> after the update (or after a
  failed lookup). A schedule names, step by step, the request whose next operation
  runs and the clock value at that moment.
\<close>

datatype read_state = Pending string | Located objectId | Finished

definition read_step :: "nat \<Rightarrow> post list \<Rightarrow> read_state \<Rightarrow> post list \<times> read_state" where
  "read_step now ps r =
     (case r of
        Pending ident \<Rightarrow>
          (case lookup_post ps ident of
             None \<Rightarrow> (ps, Finished)
           | Some p \<Rightarrow> (ps, Located (p_id p)))
      | Located i \<Rightarrow> (inc_viewCount now i ps, Finished)
      | Finished \<Rightarrow> (ps, Finished))"

fun run_schedule ::
  "(nat \<times> nat) list \<Rightarrow> post list \<times> read_state list \<Rightarrow> post list \<times> read_state list"
where
  "run_schedule [] cfg = cfg"
| "run_schedule ((k, now) # sched) (ps, rs) =
     (if k < length rs
      then run_schedule sched (fst (read_step now ps (rs ! k)), rs[k := snd (read_step now ps (rs ! k))])
      else run_schedule sched (ps, rs))"

text \<open>
  For comparison, the read-modify-write of \<open>PostSchema.methods.incrementViewCount\<close>
  (\<open>this.viewCount += 1; return this.save();\<close>), which the earlier version of the
  detail route called: the request keeps the counter it read and writes that value
  plus one.
\<close>

datatype rmw_state = RmwPending string | RmwLoaded objectId int | RmwFinished

definition rmw_step :: "nat \<Rightarrow> post list \<Rightarrow> rmw_state \<Rightarrow> post list \<times> rmw_state" where
  "rmw_step now ps r =
     (case r of
        RmwPending ident \<Rightarrow>
          (case lookup_post ps ident of
             None \<Rightarrow> (ps, RmwFinished)
           | Some p \<Rightarrow> (ps, RmwLoaded (p_id p) (viewCount p)))
      | RmwLoaded i v \<Rightarrow>
          (update_first (\<lambda>p. p_id p = i) (\<lambda>p. p\<lparr>viewCount := v + 1, updatedAt := now\<rparr>) ps,
           RmwFinished)
      | RmwFinished \<Rightarrow> (ps, RmwFinished))"

fun run_rmw_schedule ::
  "(nat \<times> nat) list \<Rightarrow> post list \<times> rmw_state list \<Rightarrow> post list \<times> rmw_state list"
where
  "run_rmw_schedule [] cfg = cfg"
| "run_rmw_schedule ((k, now) # sched) (ps, rs) =
     (if k < length rs
      then run_rmw_schedule sched (fst (rmw_step now ps (rs ! k)), rs[k := snd (rmw_step now ps (rs ! k))])
      else run_rmw_schedule sched (ps, rs))"



section \<open>Outcomes and example data\<close>

text \<open>
  A handler that fails returns no new database: the state after a request is the old
  state on failure and the returned state on success.
\<close>

definition state_after :: "db \<Rightarrow> error + (db \<times> 'a) \<Rightarrow> db" where
  "state_after st r = (case r of Inl e \<Rightarrow> st | Inr (st', x) \<Rightarrow> st')"

text \<open>A small database for the worked examples: one published post by \<open>alice\<close>.\<close>

definition example_id :: objectId where
  "example_id = ''64b0c0ffee0000000000a001''"

definition second_id :: objectId where
  "second_id = ''64b0c0ffee0000000000a002''"

definition example_author :: objectId where
  "example_author = ''64b0c0ffee0000000000b001''"

definition other_user :: objectId where
  "other_user = ''64b0c0ffee0000000000b002''"

definition example_category :: objectId where
  "example_category = ''64b0c0ffee0000000000c001''"

definition example_post :: post where
  "example_post =
     \<lparr>p_id = example_id, title = ''Hello World!!'', content = ''First post'',
      featuredImage = None, slug = ''hello-world'', excerpt = None,
      author = example_author, category = example_category, tags = [''intro''],
      isPublished = True, viewCount = 0, comments = [], createdAt = 100, updatedAt = 100\<rparr>"

definition example_db :: db where
  "example_db =
     \<lparr>posts = [example_post],
      users = [(example_author, ''alice''), (other_user, ''bob'')],
      categories = [(example_category, ''Tech'')]\<rparr>"

definition empty_body :: post_body where
  "empty_body =
     \<lparr>b_title = None, b_content = None, b_excerpt = None, b_category = None,
      b_tags = None, b_isPublished = JUndefined, b_removeFeaturedImage = JUndefined\<rparr>"

definition hello_body :: post_body where
  "hello_body =
     \<lparr>b_title = Some ''Hello World!!'', b_content = Some ''Second post'', b_excerpt = None,
      b_category = Some example_category, b_tags = Some ''a, b'',
      b_isPublished = JUndefined, b_removeFeaturedImage = JUndefined\<rparr>"

definition alice :: principal where
  "alice = \<lparr>user_id = example_author, role = ''user''\<rparr>"

definition bob :: principal where
  "bob = \<lparr>user_id = other_user, role = ''user''\<rparr>"

definition admin_bob :: principal where
  "admin_bob = \<lparr>user_id = other_user, role = ''admin''\<rparr>"

text \<open>
  A larger collection: five posts stored in the order of their ids, created at times
  100, 400, 300, 200 and 500; the third is a draft.
\<close>

definition third_id :: objectId where
  "third_id = ''64b0c0ffee0000000000a003''"

definition fourth_id :: objectId where
  "fourth_id = ''64b0c0ffee0000000000a004''"

definition fifth_id :: objectId where
  "fifth_id = ''64b0c0ffee0000000000a005''"

definition sample_db :: db where
  "sample_db =
     example_db\<lparr>posts :=
       [example_post,
        example_post\<lparr>p_id := second_id, slug := ''second'', createdAt := 400\<rparr>,
        example_post\<lparr>p_id := third_id, slug := ''third'', createdAt := 300, isPublished := False\<rparr>,
        example_post\<lparr>p_id := fourth_id, slug := ''fourth'', createdAt := 200\<rparr>,
        example_post\<lparr>p_id := fifth_id, slug := ''fifth'', createdAt := 500\<rparr>]\<rparr>"

definition draft_body :: post_body where
  "draft_body =
     \<lparr>b_title = Some '' Draft notes'', b_content = Some ''Work in progress'', b_excerpt = None,
      b_category = Some example_category, b_tags = Some ''todo, ,notes '',
      b_isPublished = JStr ''false'', b_removeFeaturedImage = JUndefined\<rparr>"

definition png_file :: file_upload where
  "png_file =
     \<lparr>file_buffer = [0x89, 0x50, 0x4E, 0x47], mimetype = ''image/png'',
      originalname = ''logo.png''\<rparr>"

text \<open>A response carries no image bytes when its \<open>featuredImage\<close> has no \<open>data\<close>.\<close>

definition no_image_bytes :: "post_view \<Rightarrow> bool" where
  "no_image_bytes w \<longleftrightarrow>
     (case featuredImage (v_post w) of None \<Rightarrow> True | Some im \<Rightarrow> img_data im = None)"


definition empty_db :: db where
  "empty_db = example_db\<lparr>posts := []\<rparr>"


text \<open>
  Bookkeeping for the interleaving argument: a request aims at post \<open>i\<close> when its
  identifier resolves to \<open>i\<close> or it has located \<open>i\<close>; the requests in flight are those
  not yet finished; \<open>stored_views\<close> reads the counter of post \<open>i\<close>.
\<close>

definition valid_target :: "post list \<Rightarrow> objectId \<Rightarrow> read_state \<Rightarrow> bool" where
  "valid_target ps i r =
     (case r of
        Pending ident \<Rightarrow> map_option p_id (lookup_post ps ident) = Some i
      | Located j \<Rightarrow> j = i
      | Finished \<Rightarrow> True)"

definition in_flight :: "read_state list \<Rightarrow> int" where
  "in_flight rs = int (length (filter (\<lambda>r. r \<noteq> Finished) rs))"

definition stored_views :: "post list \<Rightarrow> objectId \<Rightarrow> int option" where
  "stored_views ps i = map_option viewCount (find (\<lambda>p. p_id p = i) ps)"

text \<open>
  A regular expression engine for patterns without metacharacters: such a pattern
  compiles, and with option \<open>i\<close> it matches a text exactly when it occurs in it as a
  substring, ignoring case.
\<close>

fun starts_with :: "string \<Rightarrow> string \<Rightarrow> bool" where
  "starts_with [] s = True"
| "starts_with (c # cs) [] = False"
| "starts_with (c # cs) (d # ds) = (c = d \<and> starts_with cs ds)"

fun contains :: "string \<Rightarrow> string \<Rightarrow> bool" where
  "contains pat [] = starts_with pat []"
| "contains pat (c # cs) = (starts_with pat (c # cs) \<or> contains pat cs)"

definition literal_engine :: regex_engine where
  "literal_engine =
     \<lparr>rx_ok = (\<lambda>pat. True),
      rx_find = (\<lambda>pat s. contains (toLowerCase pat) (toLowerCase s))\<rparr>"





section \<open>Properties of the slug generator\<close>

lemma filter_dropWhile_neg:
  "filter (\<lambda>c. \<not> P c) (dropWhile P xs) = filter (\<lambda>c. \<not> P c) xs"
  by (induction xs) auto

lemma replace_runs_empty: "replace_runs cls [] s = filter (\<lambda>c. \<not> cls c) s"
  by (induction cls "[] :: string" s rule: replace_runs.induct)
     (auto simp: filter_dropWhile_neg)

lemma replace_runs_space: "replace_runs (\<lambda>c. c = CHR '' '') ''-'' s = collapse_spaces s"
  by (induction s rule: collapse_spaces.induct) auto

text \<open>
  Claim C9. The slug derivation is a function of the title alone: it lowercases the
  title, removes every character that is neither a word character nor a space, and
  replaces each run of spaces by a single hyphen; the title \<open>Hello World!!\<close> derives
  \<open>hello-world\<close>.
\<close>

theorem generateSlug_derivation:
  "generateSlug t = spec_deriveSlug t \<and>
   generateSlug ''Hello World!!'' = ''hello-world''"
proof
  show "generateSlug t = spec_deriveSlug t"
    by (simp add: generateSlug_def spec_deriveSlug_def toLowerCase_def
        replace_runs_empty replace_runs_space)
  show "generateSlug ''Hello World!!'' = ''hello-world''"
    by (simp add: generateSlug_def toLowerCase_def toLowerCase_char_def is_word_char_def)
qed


text \<open>
  The unique-slug loop by itself does what the specification asks of it: its result
  is not taken, it is the base slug when that is free, and otherwise the base slug with
  the least suffix \<open>-k\<close>, \<open>k \<ge> 1\<close>, that is free.
\<close>

lemma unique_loop_taken:
  "slug_taken ps s \<Longrightarrow> unique_loop ps orig s c = unique_loop ps orig (suffixed orig c) (c + 1)"
  by (subst unique_loop.simps) simp

lemma unique_loop_free: "\<not> slug_taken ps s \<Longrightarrow> unique_loop ps orig s c = s"
  by (subst unique_loop.simps) simp

lemma unique_loop_fresh: "\<not> slug_taken ps (unique_loop ps orig s c)"
  by (induction ps orig s c rule: unique_loop.induct)
     (metis unique_loop_taken unique_loop_free)

lemma generateUniqueSlug_fresh: "\<not> slug_taken ps (generateUniqueSlug ps t)"
  by (simp add: generateUniqueSlug_def Let_def unique_loop_fresh)

lemma generateUniqueSlug_base:
  "\<not> slug_taken ps (generateSlug t) \<Longrightarrow> generateUniqueSlug ps t = generateSlug t"
  by (simp add: generateUniqueSlug_def Let_def unique_loop_free)

lemma unique_loop_least:
  "slug_taken ps s \<Longrightarrow>
   \<exists>k\<ge>c. unique_loop ps orig s c = suffixed orig k \<and>
          (\<forall>j. c \<le> j \<and> j < k \<longrightarrow> slug_taken ps (suffixed orig j))"
proof (induction ps orig s c rule: unique_loop.induct)
  case (1 ps orig s c)
  show ?case
  proof (cases "slug_taken ps (suffixed orig c)")
    case False
    with "1.prems" have "unique_loop ps orig s c = suffixed orig c"
      by (simp add: unique_loop_taken unique_loop_free)
    then show ?thesis by (intro exI[of _ c]) auto
  next
    case True
    from "1.IH"[OF "1.prems" True] obtain k where k: "c + 1 \<le> k"
      "unique_loop ps orig (suffixed orig c) (c + 1) = suffixed orig k"
      "\<forall>j. c + 1 \<le> j \<and> j < k \<longrightarrow> slug_taken ps (suffixed orig j)"
      by blast
    have "unique_loop ps orig s c = suffixed orig k"
      using "1.prems" k(2) by (simp add: unique_loop_taken)
    moreover have "\<forall>j. c \<le> j \<and> j < k \<longrightarrow> slug_taken ps (suffixed orig j)"
    proof (intro allI impI)
      fix j assume "c \<le> j \<and> j < k"
      then show "slug_taken ps (suffixed orig j)"
        using k(3) True by (cases "j = c") auto
    qed
    ultimately show ?thesis using k(1) by (intro exI[of _ k]) simp
  qed
qed

lemma generateUniqueSlug_suffix:
  assumes "slug_taken ps (generateSlug t)"
  shows "\<exists>k\<ge>1. generateUniqueSlug ps t = suffixed (generateSlug t) k \<and>
          \<not> slug_taken ps (suffixed (generateSlug t) k) \<and>
          (\<forall>j. 1 \<le> j \<and> j < k \<longrightarrow> slug_taken ps (suffixed (generateSlug t) j))"
proof -
  from unique_loop_least[OF assms, of 1 "generateSlug t"] obtain k where
    k: "1 \<le> k" "unique_loop ps (generateSlug t) (generateSlug t) 1 = suffixed (generateSlug t) k"
      "\<forall>j. 1 \<le> j \<and> j < k \<longrightarrow> slug_taken ps (suffixed (generateSlug t) j)"
    by blast
  have e: "generateUniqueSlug ps t = suffixed (generateSlug t) k"
    using k(2) by (simp add: generateUniqueSlug_def Let_def)
  with generateUniqueSlug_fresh[of ps t] have "\<not> slug_taken ps (suffixed (generateSlug t) k)"
    by simp
  with e k(1,3) show ?thesis by blast
qed


section \<open>Authorization of update and delete\<close>

lemma example_ids_valid:
  "isValidObjectId example_id" "isValidObjectId second_id" "isValidObjectId example_author"
  "isValidObjectId other_user" "isValidObjectId example_category"
  by (simp_all add: isValidObjectId_def example_id_def second_id_def example_author_def
      other_user_def example_category_def)

lemma example_ids_canonical:
  "castObjectId example_id = example_id" "castObjectId second_id = second_id"
  "castObjectId example_author = example_author" "castObjectId other_user = other_user"
  "castObjectId example_category = example_category"
  by (simp_all add: castObjectId_def toLowerCase_def toLowerCase_char_def example_id_def
      second_id_def example_author_def other_user_def example_category_def)



lemma example_lookup: "findById (posts example_db) example_id = Inr (Some example_post)"
  by (simp add: findById_def example_ids_valid example_ids_canonical)
     (simp add: example_db_def example_post_def)

text \<open>
  Claim C2. On an existing post, update and delete are refused with Forbidden (status
  403) exactly when the principal's id differs from the post's author and the
  principal's role is not \<open>admin\<close>; the check is the same for both operations, it passes
  iff the principal is the author or an admin, and a refused request leaves the
  database as it was.
\<close>

theorem mutation_guard:
  assumes "findById (posts st) i = Inr (Some p)"
  shows "(canMutate p user \<longleftrightarrow> author p = user_id user \<or> role user = ''admin'') \<and>
         (update_post st user i body file now = Inl Forbidden \<longleftrightarrow> \<not> canMutate p user) \<and>
         (delete_post st user i = Inl Forbidden \<longleftrightarrow> \<not> canMutate p user) \<and>
         http_status Forbidden = 403 \<and>
         (\<not> canMutate p user \<longrightarrow>
            state_after st (update_post st user i body file now) = st)"
  using assms
  by (auto simp: canMutate_def update_post_def delete_post_def state_after_def)

theorem mutation_guard_witness:
  "findById (posts example_db) example_id = Inr (Some example_post) \<and>
   \<not> canMutate example_post bob \<and>
   update_post example_db bob example_id empty_body None 200 = Inl Forbidden \<and>
   delete_post example_db bob example_id = Inl Forbidden \<and>
   canMutate example_post admin_bob \<and>
   delete_post example_db admin_bob example_id = Inr (example_db\<lparr>posts := []\<rparr>)"
proof -
  note f = example_lookup
  have d: "delete_post example_db admin_bob example_id = Inr (example_db\<lparr>posts := []\<rparr>)"
    by (simp add: delete_post_def f canMutate_def admin_bob_def example_ids_canonical)
       (simp add: example_db_def example_post_def)
  have n: "other_user \<noteq> example_author"
    by (simp add: other_user_def example_author_def)
  show ?thesis
    using mutation_guard[OF f, of bob empty_body None 200]
      mutation_guard[OF f, of admin_bob empty_body None 200] f d n
    by (simp add: example_post_def bob_def admin_bob_def)
qed


section \<open>Facts about the persistence primitives and the handlers\<close>

lemma find_update_first:
  "(\<And>x. P (f x) = P x) \<Longrightarrow> find P (update_first P f xs) = map_option f (find P xs)"
  by (induction xs) auto

lemma update_first_const:
  "find P xs = Some x \<Longrightarrow> update_first P f xs = update_first P (\<lambda>_. f x) xs"
  by (induction xs) (auto split: if_splits)

lemma find_snoc:
  "find P (xs @ [x]) =
     (case find P xs of Some y \<Rightarrow> Some y | None \<Rightarrow> if P x then Some x else None)"
  by (induction xs) auto

lemma pre_save_fields:
  "p_id (pre_save m p) = p_id p" "isPublished (pre_save m p) = isPublished p"
  "featuredImage (pre_save m p) = featuredImage p" "title (pre_save m p) = title p"
  "author (pre_save m p) = author p" "viewCount (pre_save m p) = viewCount p"
  "comments (pre_save m p) = comments p" "createdAt (pre_save m p) = createdAt p"
  by (simp_all add: pre_save_def)

lemma new_document_fields:
  "p_id (new_document ps user body upl new_id now t) = new_id"
  "isPublished (new_document ps user body upl new_id now t) = is_true_flag (b_isPublished body)"
  "featuredImage (new_document ps user body upl new_id now t) = map_option image_of_file upl"
  "viewCount (new_document ps user body upl new_id now t) = 0"
  "comments (new_document ps user body upl new_id now t) = []"
  "author (new_document ps user body upl new_id now t) = castObjectId (user_id user)"
  by (simp_all add: new_document_def)

lemma create_post_Inr:
  assumes "create_post st user body upl new_id now = Inr (st', v)"
  shows "\<exists>t p. b_title body = Some t \<and>
           p = pre_save True (new_document (posts st) user body upl new_id now t) \<and>
           schema_valid (new_document (posts st) user body upl new_id now t) \<and>
           \<not> list_ex (\<lambda>q. p_id q = p_id p \<or> slug q = slug p) (posts st) \<and>
           st' = st\<lparr>posts := posts st @ [p]\<rparr> \<and> v = created_view st p"
  using assms
  by (auto simp: create_post_def save_new_def insert_post_def Let_def
      split: option.splits sum.splits if_splits)

lemma find_window_subset:
  assumes "find_window ps query skip lim = Inr docs"
  shows "set docs \<subseteq> {q \<in> set ps. query q}"
proof -
  have s: "set (drop n (newest_first (filter query ps))) \<subseteq> {q \<in> set ps. query q}" for n
    using set_drop_subset[of n "newest_first (filter query ps)"]
    by (auto simp: newest_first_def)
  have t: "set (take m (drop n (newest_first (filter query ps)))) \<subseteq> {q \<in> set ps. query q}"
    for m n
    using s[of n] set_take_subset[of m "drop n (newest_first (filter query ps))"] by blast
  from assms obtain m n where
    "docs = drop n (newest_first (filter query ps)) \<or>
     docs = take m (drop n (newest_first (filter query ps)))"
    by (auto simp: find_window_def Let_def split: if_splits js_number.splits)
  with s t show ?thesis by blast
qed

lemma list_query_published: "list_query qc = Inr query \<Longrightarrow> query q \<Longrightarrow> isPublished q"
  by (auto simp: list_query_def split: option.splits if_splits)

lemma list_posts_sources:
  assumes "list_posts st qp ql qc = Inr r" and "w \<in> set (r_data r)"
  shows "\<exists>q \<in> set (posts st). isPublished q \<and> w = post_view_of st q"
proof -
  from assms(1) obtain query docs where q: "list_query qc = Inr query"
    and d: "find_window (posts st) query (skip_of (page_of qp) (limit_of ql)) (limit_of ql) = Inr docs"
    and r: "r_data r = map (post_view_of st) docs"
    by (auto simp: list_posts_def Let_def split: sum.splits)
  from assms(2) r obtain q where "q \<in> set docs" "w = post_view_of st q" by auto
  with find_window_subset[OF d] list_query_published[OF q] show ?thesis by auto
qed


lemma view_id: "p_id (v_post (post_view_of st q)) = p_id q"
  by (simp add: post_view_of_def exclude_image_data_def)

lemma round_double_exact: "\<bar>n\<bar> < 2 ^ 53 \<Longrightarrow> round_double n = Num n"
  by (simp add: round_double_def Let_def nat_less_iff)

lemma skip_of_exact:
  "\<bar>p - 1\<bar> < 2 ^ 53 \<Longrightarrow> \<bar>(p - 1) * l\<bar> < 2 ^ 53 \<Longrightarrow> skip_of (Num p) (Num l) = Num ((p - 1) * l)"
  by (simp add: skip_of_def js_minus_one_def js_times_def round_double_exact)

lemma list_posts_default:
  "list_posts st None None None =
     Inr \<lparr>r_data = map (post_view_of st) (take 10 (newest_first (filter isPublished (posts st)))),
          r_page = Num 1, r_limit = Num 10,
          r_total = int (length (filter isPublished (posts st))),
          r_pages = Num (ceil_div (int (length (filter isPublished (posts st)))) 10)\<rparr>"
  by (simp add: list_posts_def page_of_def limit_of_def parseInt_def or_default_def
      skip_of_exact list_query_def find_window_def pages_of_def Let_def)

text \<open>The example request with the title \<open>" Draft notes"\<close> creates a post.\<close>

lemma draft_slug: "generateUniqueSlug (posts example_db) '' Draft notes'' = ''-draft-notes''"
proof -
  have g: "generateSlug '' Draft notes'' = ''-draft-notes''"
    by (simp add: generateSlug_def toLowerCase_def toLowerCase_char_def is_word_char_def)
  have "\<not> slug_taken (posts example_db) ''-draft-notes''"
    by (simp add: slug_taken_def findOne_slug_def example_db_def example_post_def)
  then show ?thesis
    using generateUniqueSlug_base[of "posts example_db" "'' Draft notes''"] g by simp
qed

lemma draft_trim: "trim '' Draft notes'' = ''Draft notes''"
  by (simp add: trim_def is_js_space_def)

lemma draft_hook_slug: "generateSlug ''Draft notes'' = ''draft-notes''"
  by (simp add: generateSlug_def toLowerCase_def toLowerCase_char_def is_word_char_def)



section \<open>Frame of update\<close>

lemma apply_update_frame:
  "apply_update body upl now p =
     p\<lparr>title := title (apply_update body upl now p),
       content := content (apply_update body upl now p),
       excerpt := excerpt (apply_update body upl now p),
       category := category (apply_update body upl now p),
       tags := tags (apply_update body upl now p),
       isPublished := isPublished (apply_update body upl now p),
       featuredImage := featuredImage (apply_update body upl now p),
       updatedAt := updatedAt (apply_update body upl now p)\<rparr>"
  by (simp add: apply_update_def)

text \<open>
  Claim C7. After a successful update the stored post is the old post with at most
  \<open>title\<close>, \<open>content\<close>, \<open>excerpt\<close>, \<open>category\<close>, \<open>tags\<close>, \<open>isPublished\<close> and
  \<open>featuredImage\<close> replaced (and the \<open>updatedAt\<close> timestamp set); its \<open>author\<close>,
  \<open>viewCount\<close>, \<open>comments\<close>, \<open>slug\<close> and \<open>createdAt\<close> are those it had before, and no
  other document changes.
\<close>

theorem update_frame:
  assumes "update_post st user i body upl now = Inr (st', v)"
  shows "\<exists>p p'. findById (posts st) i = Inr (Some p) \<and>
           findById (posts st') i = Inr (Some p') \<and>
           p' = p\<lparr>title := title p', content := content p', excerpt := excerpt p',
                  category := category p', tags := tags p', isPublished := isPublished p',
                  featuredImage := featuredImage p', updatedAt := updatedAt p'\<rparr> \<and>
           author p' = author p \<and> viewCount p' = viewCount p \<and> comments p' = comments p \<and>
           slug p' = slug p \<and> createdAt p' = createdAt p \<and>
           posts st' = update_first (\<lambda>q. p_id q = castObjectId i) (\<lambda>q. p') (posts st) \<and>
           users st' = users st \<and> categories st' = categories st"
proof -
  let ?j = "castObjectId i"
  from assms obtain p where f: "findById (posts st) i = Inr (Some p)"
    by (auto simp: update_post_def split: sum.splits option.splits)
  then have valid: "isValidObjectId i" and fp: "find (\<lambda>q. p_id q = ?j) (posts st) = Some p"
    by (auto simp: findById_def split: if_splits)
  let ?p' = "apply_update body upl now p"
  from assms f have st': "st' = st\<lparr>posts :=
      update_first (\<lambda>q. p_id q = ?j) (apply_update body upl now) (posts st)\<rparr>"
    by (auto simp: update_post_def split: if_splits)
  have id: "\<And>x. (p_id (apply_update body upl now x) = ?j) = (p_id x = ?j)"
    by (simp add: apply_update_def)
  have "find (\<lambda>q. p_id q = ?j) (posts st') = Some ?p'"
    unfolding st'
    using find_update_first[of "\<lambda>q. p_id q = ?j" "apply_update body upl now" "posts st"] fp id
    by simp
  then have f': "findById (posts st') i = Inr (Some ?p')"
    using valid by (simp add: findById_def)
  have upd: "posts st' = update_first (\<lambda>q. p_id q = ?j) (\<lambda>q. ?p') (posts st)"
    unfolding st' using update_first_const[OF fp, of "apply_update body upl now"] by simp
  have fr: "author ?p' = author p \<and> viewCount ?p' = viewCount p \<and> comments ?p' = comments p \<and>
           slug ?p' = slug p \<and> createdAt ?p' = createdAt p"
    by (simp add: apply_update_def)
  show ?thesis
    using f f' apply_update_frame[where p = p and body = body and now = now] fr upd st'
    by (intro exI[of _ p] exI[of _ ?p']) simp
qed

theorem update_frame_witness:
  "\<exists>st' v p'. update_post example_db alice example_id draft_body None 300 = Inr (st', v) \<and>
     findById (posts st') example_id = Inr (Some p') \<and>
     slug p' = ''hello-world'' \<and> author p' = example_author \<and> viewCount p' = 0 \<and>
     comments p' = [] \<and> createdAt p' = 100"
proof -
  have "update_valid draft_body"
    by (simp add: update_valid_def draft_body_def draft_trim example_ids_valid)
  then obtain st' v where
    u: "update_post example_db alice example_id draft_body None 300 = Inr (st', v)"
    by (simp add: update_post_def example_lookup canMutate_def alice_def example_post_def)
  from update_frame[OF u] example_lookup u show ?thesis
    by (auto simp: example_post_def)
qed


section \<open>Publication flag at creation\<close>




section \<open>Image round trip\<close>

lemma sample_ids:
  "second_id \<noteq> example_id" "third_id \<noteq> example_id" "fourth_id \<noteq> example_id"
  "fifth_id \<noteq> example_id" "fourth_id \<noteq> second_id"
  by (simp_all add: example_id_def second_id_def third_id_def fourth_id_def fifth_id_def)

lemma set_newest_first: "set (newest_first ps) = set ps"
  by (simp add: newest_first_def)

lemma post_view_no_bytes: "no_image_bytes (post_view_of s q)"
  by (simp add: no_image_bytes_def post_view_of_def exclude_image_data_def split: option.splits)

lemma post_view_flag: "hasFeaturedImage (post_view_of s q)"
  by (simp add: post_view_of_def nested_path_truthy_def)

lemma get_post_source:
  assumes "get_post s ident t = Inr (s', w, cs)"
  shows "\<exists>q \<in> set (posts s). w = post_view_of s q"
proof -
  from assms obtain q where q: "lookup_post (posts s) ident = Some q" "w = post_view_of s q"
    by (auto simp: get_post_def split: option.splits)
  then have "q \<in> set (posts s)"
    by (auto simp: lookup_post_def findOne_slug_def find_Some_iff split: if_splits)
  with q show ?thesis by blast
qed

text \<open>
  Claim C6. After a post was created with an uploaded image, the image endpoint
  returns the uploaded bytes with the uploaded MIME type as content type. The create
  response carries no \<open>featuredImage\<close> and the flag \<open>hasFeaturedImage = true\<close>. A detail
  read of the new post succeeds and returns it with the image's content type and file
  name, without the bytes, and with the flag; the default list request succeeds, and
  shows the post in the same way when it is published and at most ten posts are. No
  list or detail response of any request carries image bytes, and every one carries the
  flag. The image endpoint answers NotFound (404) for a post whose \<open>featuredImage\<close> is
  not set.
\<close>

theorem image_round_trip:
  assumes "create_post st user body (Some f) new_id now = Inr (st', v)"
    and "isValidObjectId new_id" and "castObjectId new_id = new_id"
  shows "get_image st' new_id = Inr (mimetype f, file_buffer f) \<and>
         featuredImage (v_post v) = None \<and> hasFeaturedImage v \<and>
         (\<exists>p. find (\<lambda>q. p_id q = new_id) (posts st') = Some p \<and>
              featuredImage p = Some (image_of_file f) \<and>
              (\<forall>t. get_post st' new_id t =
                     Inr (st'\<lparr>posts := inc_viewCount t new_id (posts st')\<rparr>,
                          post_view_of st' p, [])) \<and>
              featuredImage (v_post (post_view_of st' p)) =
                Some \<lparr>img_data = None, contentType = mimetype f, filename = originalname f\<rparr> \<and>
              hasFeaturedImage (post_view_of st' p) \<and>
              (\<exists>r. list_posts st' None None None = Inr r \<and>
                   (is_true_flag (b_isPublished body) \<and>
                    length (filter isPublished (posts st')) \<le> 10 \<longrightarrow>
                      post_view_of st' p \<in> set (r_data r)))) \<and>
         (\<forall>qp ql qc r. list_posts st' qp ql qc = Inr r \<longrightarrow>
            list_all no_image_bytes (r_data r) \<and> list_all hasFeaturedImage (r_data r)) \<and>
         (\<forall>ident t st'' w cs. get_post st' ident t = Inr (st'', w, cs) \<longrightarrow>
            no_image_bytes w \<and> hasFeaturedImage w) \<and>
         (\<forall>s i p. findById (posts s) i = Inr (Some p) \<and> featuredImage p = None \<longrightarrow>
            get_image s i = Inl NotFound) \<and>
         http_status NotFound = 404"
proof -
  from create_post_Inr[OF assms(1)] obtain t p where
    p: "p = pre_save True (new_document (posts st) user body (Some f) new_id now t)"
    and fresh: "\<not> list_ex (\<lambda>q. p_id q = p_id p \<or> slug q = slug p) (posts st)"
    and st': "st' = st\<lparr>posts := posts st @ [p]\<rparr>" and v: "v = created_view st p"
    by blast
  have pid: "p_id p = new_id" by (simp add: p pre_save_fields new_document_fields)
  have img: "featuredImage p = Some (image_of_file f)"
    by (simp add: p pre_save_fields new_document_fields)
  have cs: "comments p = []" by (simp add: p pre_save_fields new_document_fields)
  have pub: "isPublished p = is_true_flag (b_isPublished body)"
    by (simp add: p pre_save_fields new_document_fields)
  have none: "find (\<lambda>q. p_id q = new_id) (posts st) = None"
    using fresh pid by (auto simp: find_None_iff list_ex_iff)
  have found: "find (\<lambda>q. p_id q = new_id) (posts st') = Some p"
    by (simp add: st' find_snoc none pid)
  have g: "get_image st' new_id = Inr (mimetype f, file_buffer f)"
    using assms(2,3) found img by (simp add: get_image_def findById_def image_of_file_def)
  have look: "lookup_post (posts st') new_id = Some p"
    using assms(2,3) found by (simp add: lookup_post_def)
  have det: "get_post st' new_id t' =
               Inr (st'\<lparr>posts := inc_viewCount t' new_id (posts st')\<rparr>, post_view_of st' p, [])"
    for t'
    by (simp add: get_post_def look pid cs)
  have meta: "featuredImage (v_post (post_view_of st' p)) =
                Some \<lparr>img_data = None, contentType = mimetype f, filename = originalname f\<rparr>"
    by (simp add: post_view_of_def exclude_image_data_def img image_of_file_def)
  have dl: "post_view_of st' p \<in> set (r_data r)"
    if "list_posts st' None None None = Inr r"
      "is_true_flag (b_isPublished body) \<and> length (filter isPublished (posts st')) \<le> 10"
    for r
  proof -
    from that(2) pub have "p \<in> set (filter isPublished (posts st'))"
      by (simp add: st')
    then have "p \<in> set (take 10 (newest_first (filter isPublished (posts st'))))"
      using that(2) by (simp add: newest_first_def set_newest_first)
    with that(1) show ?thesis
      by (auto simp: list_posts_default)
  qed
  have l: "list_all no_image_bytes (r_data r) \<and> list_all hasFeaturedImage (r_data r)"
    if "list_posts st' qp ql qc = Inr r" for qp ql qc r
    unfolding list_all_iff
  proof (intro conjI ballI)
    fix w assume w: "w \<in> set (r_data r)"
    from list_posts_sources[OF that w] obtain q where q: "w = post_view_of st' q" by blast
    show "no_image_bytes w" by (simp add: q post_view_no_bytes)
    show "hasFeaturedImage w" by (simp add: q post_view_flag)
  qed
  have d: "no_image_bytes w \<and> hasFeaturedImage w"
    if "get_post st' ident t' = Inr (st'', w, cs')" for ident t' st'' w cs'
    using get_post_source[OF that] by (auto simp: post_view_no_bytes post_view_flag)
  have n: "get_image s i = Inl NotFound"
    if "findById (posts s) i = Inr (Some q) \<and> featuredImage q = None" for s i q
    using that by (simp add: get_image_def)
  have cv: "featuredImage (v_post v) = None \<and> hasFeaturedImage v"
    by (simp add: v created_view_def nested_path_truthy_def)
  have ex: "\<exists>p. find (\<lambda>q. p_id q = new_id) (posts st') = Some p \<and>
              featuredImage p = Some (image_of_file f) \<and>
              (\<forall>t. get_post st' new_id t =
                     Inr (st'\<lparr>posts := inc_viewCount t new_id (posts st')\<rparr>,
                          post_view_of st' p, [])) \<and>
              featuredImage (v_post (post_view_of st' p)) =
                Some \<lparr>img_data = None, contentType = mimetype f, filename = originalname f\<rparr> \<and>
              hasFeaturedImage (post_view_of st' p) \<and>
              (\<exists>r. list_posts st' None None None = Inr r \<and>
                   (is_true_flag (b_isPublished body) \<and>
                    length (filter isPublished (posts st')) \<le> 10 \<longrightarrow>
                      post_view_of st' p \<in> set (r_data r)))"
    using found img det meta post_view_flag[of st' p] dl list_posts_default[of st']
    by (intro exI[of _ p]) blast
  from g cv ex l d n show ?thesis by simp blast
qed

lemma published_created:
  "\<exists>st' v. create_post example_db alice (draft_body\<lparr>b_isPublished := JBool True\<rparr>) upl
              second_id 200 = Inr (st', v)"
  apply (simp add: create_post_def draft_body_def new_document_def draft_slug draft_trim
      save_new_def schema_valid_def example_ids_valid example_ids_canonical alice_def
      pre_save_def draft_hook_slug insert_post_def Let_def)
  apply (simp add: example_db_def example_post_def example_id_def second_id_def)
  done

theorem image_round_trip_witness:
  "\<exists>st' v r st'' w.
     create_post example_db alice (draft_body\<lparr>b_isPublished := JBool True\<rparr>) (Some png_file)
       second_id 200 = Inr (st', v) \<and>
     isValidObjectId second_id \<and> castObjectId second_id = second_id \<and>
     get_image st' second_id = Inr (''image/png'', [0x89, 0x50, 0x4E, 0x47]) \<and>
     hasFeaturedImage v \<and> featuredImage (v_post v) = None \<and>
     list_posts st' None None None = Inr r \<and>
     map (\<lambda>w. (p_id (v_post w), hasFeaturedImage w, map_option img_data (featuredImage (v_post w))))
       (r_data r) = [(second_id, True, Some None), (example_id, True, None)] \<and>
     get_post st' second_id 300 = Inr (st'', w, []) \<and>
     hasFeaturedImage w \<and>
     featuredImage (v_post w) =
       Some \<lparr>img_data = None, contentType = ''image/png'', filename = ''logo.png''\<rparr> \<and>
     findById (posts st') example_id = Inr (Some example_post) \<and>
     get_image st' example_id = Inl NotFound"
proof -
  let ?body = "draft_body\<lparr>b_isPublished := JBool True\<rparr>"
  obtain st' v where
    c: "create_post example_db alice ?body (Some png_file) second_id 200 = Inr (st', v)"
    using published_created by blast
  from create_post_Inr[OF c] obtain t p where
    p: "p = pre_save True (new_document (posts example_db) alice ?body (Some png_file) second_id 200 t)"
    and st': "st' = example_db\<lparr>posts := posts example_db @ [p]\<rparr>"
    by blast
  have pf: "p_id p = second_id" "isPublished p" "createdAt p = 200"
    by (simp_all add: p pre_save_def new_document_def is_true_flag_def)
  have ps: "posts st' = [example_post, p]"
    by (simp add: st' example_db_def)
  have e: "findById (posts st') example_id = Inr (Some example_post)"
    by (simp add: findById_def example_ids_valid example_ids_canonical ps example_post_def)
  have n: "featuredImage example_post = None" by (simp add: example_post_def)
  have flt: "filter isPublished (posts st') = [example_post, p]"
    by (simp add: ps pf example_post_def)
  have srt: "newest_first [example_post, p] = [p, example_post]"
    by (simp add: newest_first_def pf example_post_def)
  note rt = image_round_trip[OF c example_ids_valid(2) example_ids_canonical(2)]
  from rt obtain p' where p': "find (\<lambda>q. p_id q = second_id) (posts st') = Some p'"
    "get_post st' second_id 300 =
       Inr (st'\<lparr>posts := inc_viewCount 300 second_id (posts st')\<rparr>, post_view_of st' p', [])"
    "featuredImage (v_post (post_view_of st' p')) =
       Some \<lparr>img_data = None, contentType = mimetype png_file, filename = originalname png_file\<rparr>"
    by blast
  have pp: "p' = p"
    using p'(1) by (simp add: ps pf example_post_def sample_ids[symmetric] split: if_splits)
  have li: "list_posts st' None None None =
      Inr \<lparr>r_data = [post_view_of st' p, post_view_of st' example_post],
           r_page = Num 1, r_limit = Num 10, r_total = 2, r_pages = Num 1\<rparr>"
    by (simp add: list_posts_default flt srt ceil_div_def)
  have vw: "map_option img_data (featuredImage (v_post (post_view_of st' example_post))) = None"
    by (simp add: post_view_of_def exclude_image_data_def n)
  show ?thesis
    using rt c e n li p'(2,3) pp vw example_ids_valid(2) example_ids_canonical(2)
    by (auto simp: png_file_def view_id pf post_view_flag example_post_def)
qed


section \<open>Listing and pagination\<close>

lemma newest_first_sorted:
  "sorted_wrt (\<lambda>a b. createdAt b \<le> createdAt a) (newest_first ps)"
proof -
  have "sorted (map (\<lambda>p. - int (createdAt p)) (newest_first ps))"
    by (simp add: newest_first_def)
  then show ?thesis
    by (simp add: sorted_map)
qed

lemma find_window_sorted:
  assumes "find_window ps query skip lim = Inr docs"
  shows "sorted_wrt (\<lambda>a b. createdAt b \<le> createdAt a) docs"
  using assms newest_first_sorted[of "filter query ps"]
  by (auto simp: find_window_def Let_def split: if_splits js_number.splits)

lemma view_fields:
  "isPublished (v_post (post_view_of st q)) = isPublished q"
  "createdAt (v_post (post_view_of st q)) = createdAt q"
  by (simp_all add: post_view_of_def exclude_image_data_def)

text \<open>
  Claim C4, amended. A list request that succeeds returns published posts only (of the
  requested category, when one is given), newest first. The page number and the page
  size are the query parameters as \<open>parseInt\<close> reads them, replaced by 1 and 10 when the
  parameter is absent, does not start with a number, or is zero. When both are
  positive and \<open>(page - 1) * pageSize\<close> is below \<open>2^53\<close>, the items are the posts at
  offsets \<open>(page - 1) * pageSize\<close> up to \<open>page * pageSize\<close> of those posts in that order.
\<close>

theorem list_posts_window:
  assumes "list_posts st qp ql qc = Inr r"
  shows "list_all (\<lambda>w. isPublished (v_post w)) (r_data r) \<and>
         sorted_wrt (\<lambda>a b. createdAt (v_post b) \<le> createdAt (v_post a)) (r_data r) \<and>
         r_page r =
           (case parseInt qp of NaN \<Rightarrow> Num 1 | Num n \<Rightarrow> if n = 0 then Num 1 else Num n | x \<Rightarrow> x) \<and>
         r_limit r =
           (case parseInt ql of NaN \<Rightarrow> Num 10 | Num n \<Rightarrow> if n = 0 then Num 10 else Num n | x \<Rightarrow> x) \<and>
         (qp = None \<longrightarrow> r_page r = Num 1) \<and> (ql = None \<longrightarrow> r_limit r = Num 10) \<and>
         (\<exists>query. list_query qc = Inr query \<and>
            (\<forall>q. query q \<longleftrightarrow>
               isPublished q \<and>
               (case qc of None \<Rightarrow> True | Some c \<Rightarrow> c = [] \<or> category q = castObjectId c)) \<and>
            (\<forall>p l. r_page r = Num p \<and> r_limit r = Num l \<and> 0 < p \<and> 0 < l \<and>
                   (p - 1) * l < 2 ^ 53 \<longrightarrow>
               r_data r = map (post_view_of st)
                 (take (nat l) (drop (nat ((p - 1) * l))
                    (newest_first (filter query (posts st)))))))"
proof -
  from assms obtain query docs where q: "list_query qc = Inr query"
    and d: "find_window (posts st) query (skip_of (page_of qp) (limit_of ql)) (limit_of ql) = Inr docs"
    and r: "r_data r = map (post_view_of st) docs"
    and pg: "r_page r = page_of qp" and lim: "r_limit r = limit_of ql"
    by (auto simp: list_posts_def Let_def split: sum.splits)
  have pub: "list_all (\<lambda>w. isPublished (v_post w)) (r_data r)"
    using find_window_subset[OF d] list_query_published[OF q]
    by (auto simp: r list_all_iff view_fields)
  have srt: "sorted_wrt (\<lambda>a b. createdAt (v_post b) \<le> createdAt (v_post a)) (r_data r)"
    using find_window_sorted[OF d] by (simp add: r sorted_wrt_map view_fields)
  have p1: "r_page r =
      (case parseInt qp of NaN \<Rightarrow> Num 1 | Num n \<Rightarrow> if n = 0 then Num 1 else Num n | x \<Rightarrow> x)"
    by (simp add: pg page_of_def or_default_def)
  have l1: "r_limit r =
      (case parseInt ql of NaN \<Rightarrow> Num 10 | Num n \<Rightarrow> if n = 0 then Num 10 else Num n | x \<Rightarrow> x)"
    by (simp add: lim limit_of_def or_default_def)
  have p2: "qp = None \<longrightarrow> r_page r = Num 1" by (simp add: p1 parseInt_def)
  have l2: "ql = None \<longrightarrow> r_limit r = Num 10" by (simp add: l1 parseInt_def)
  have qd: "query x \<longleftrightarrow>
      isPublished x \<and> (case qc of None \<Rightarrow> True | Some c \<Rightarrow> c = [] \<or> category x = castObjectId c)"
    for x
    using q by (auto simp: list_query_def split: option.splits if_splits)
  have win: "r_data r = map (post_view_of st)
                 (take (nat l) (drop (nat ((p - 1) * l)) (newest_first (filter query (posts st)))))"
    if w: "r_page r = Num p \<and> r_limit r = Num l \<and> 0 < p \<and> 0 < l \<and> (p - 1) * l < 2 ^ 53"
    for p l
  proof -
    from w have "(p - 1) * 1 \<le> (p - 1) * l"
      by (intro mult_left_mono) simp_all
    with w have b: "\<bar>p - 1\<bar> < 2 ^ 53" "\<bar>(p - 1) * l\<bar> < 2 ^ 53" "0 \<le> (p - 1) * l"
      by simp_all
    from w have e: "page_of qp = Num p" "limit_of ql = Num l"
      by (simp_all add: pg lim)
    have sk: "skip_of (Num p) (Num l) = Num ((p - 1) * l)"
      using b(1,2) by (rule skip_of_exact)
    from d have "find_window (posts st) query (Num ((p - 1) * l)) (Num l) = Inr docs"
      by (simp add: e sk)
    with w b(3) show ?thesis
      by (simp add: r find_window_def Let_def split: if_splits)
  qed
  from pub srt p1 l1 p2 l2 q qd win show ?thesis by blast
qed

text \<open>Some values of \<open>parseInt\<close>; a digit run above \<open>2^53\<close> is rounded to a double.\<close>

lemma parse_fixtures:
  "parseInt (Some ''2'') = Num 2" "parseInt (Some ''-2'') = Num (- 2)"
  "parseInt (Some ''-5'') = Num (- 5)" "parseInt (Some ''0'') = Num 0"
  "parseInt (Some ''abc'') = NaN" "parseInt (Some '' 12px'') = Num 12"
  "parseInt (Some ''0x1F'') = Num 31"
  by (simp_all add: parseInt_def is_js_space_def digit_of_def hex_digit_of_def Let_def
      round_double_exact)

lemma bit_length_2_53_plus_1: "bit_length 9007199254740993 = 54"
  by (simp add: bit_length.simps)

lemma round_double_2_53_plus_1: "round_double 9007199254740993 = Num 9007199254740992"
proof -
  have n: "nat \<bar>9007199254740993\<bar> = 9007199254740993" by simp
  show ?thesis
    unfolding round_double_def Let_def n bit_length_2_53_plus_1 by simp
qed

lemma parse_rounds_to_double: "parseInt (Some ''9007199254740993'') = Num 9007199254740992"
proof -
  have "parseInt (Some ''9007199254740993'') = round_double 9007199254740993"
    by (simp add: parseInt_def is_js_space_def digit_of_def Let_def)
  then show ?thesis
    by (simp add: round_double_2_53_plus_1)
qed

lemma bit_length_skip: "bit_length 90071992547409910 = 57"
  by (simp add: bit_length.simps)

lemma round_double_skip: "round_double 90071992547409910 = Num 90071992547409904"
proof -
  have n: "nat \<bar>90071992547409910\<bar> = 90071992547409910" by simp
  show ?thesis
    unfolding round_double_def Let_def n bit_length_skip by simp
qed

lemma list_posts_page_rounded:
  "list_posts sample_db (Some ''9007199254740993'') None None =
     Inr \<lparr>r_data = [], r_page = Num 9007199254740992, r_limit = Num 10, r_total = 4,
          r_pages = Num 1\<rparr>"
proof -
  have pg: "page_of (Some ''9007199254740993'') = Num 9007199254740992"
    by (simp add: page_of_def or_default_def parse_rounds_to_double)
  have lim: "limit_of None = Num 10"
    by (simp add: limit_of_def or_default_def parseInt_def)
  have m1: "js_minus_one (Num 9007199254740992) = Num 9007199254740991"
    by (simp add: js_minus_one_def round_double_exact)
  have sk: "skip_of (Num 9007199254740992) (Num 10) = Num 90071992547409904"
    by (simp add: skip_of_def m1 js_times_def round_double_skip)
  have q: "list_query None = Inr isPublished"
    by (simp add: list_query_def)
  have len: "length (filter isPublished (posts sample_db)) = 4"
    by (simp add: sample_db_def example_db_def example_post_def)
  have w: "find_window (posts sample_db) isPublished (Num 90071992547409904) (Num 10) = Inr []"
    by (simp add: find_window_def Let_def newest_first_def sample_db_def example_db_def)
  show ?thesis
    by (simp add: list_posts_def Let_def pg lim sk q w len pages_of_def ceil_div_def)
qed

text \<open>
  The claim as first stated also promised the defaults for negative values. A negative
  number is truthy in JavaScript, so \<open>parseInt(x) || 1\<close> keeps it: \<open>page=-2\<close> stays
  \<open>-2\<close> and gives a negative skip.
\<close>

theorem negative_page_not_defaulted:
  "page_of (Some ''-2'') = Num (- 2) \<and> limit_of (Some ''-5'') = Num (- 5) \<and>
   skip_of (page_of (Some ''-2'')) (limit_of None) = Num (- 30) \<and>
   page_of (Some ''0'') = Num 1 \<and> limit_of (Some ''abc'') = Num 10"
proof -
  have "skip_of (Num (- 2)) (Num 10) = Num (- 30)"
    using skip_of_exact[of "- 2" 10] by simp
  moreover have "parseInt None = NaN" by (simp add: parseInt_def)
  ultimately show ?thesis
    by (simp add: page_of_def limit_of_def or_default_def parse_fixtures)
qed

theorem list_posts_window_witness:
  "\<exists>r. list_posts sample_db (Some ''2'') (Some ''2'') None = Inr r \<and>
     length (filter (\<lambda>p. \<not> isPublished p) (posts sample_db)) = 1 \<and>
     map createdAt (posts sample_db) = [100, 400, 300, 200, 500] \<and>
     r_page r = Num 2 \<and> r_limit r = Num 2 \<and> r_total r = 4 \<and> r_pages r = Num 2 \<and>
     map (\<lambda>w. (p_id (v_post w), createdAt (v_post w))) (r_data r) =
       [(fourth_id, 200), (example_id, 100)]"
proof -
  let ?p2 = "example_post\<lparr>p_id := second_id, slug := ''second'', createdAt := 400\<rparr>"
  let ?p4 = "example_post\<lparr>p_id := fourth_id, slug := ''fourth'', createdAt := 200\<rparr>"
  let ?p5 = "example_post\<lparr>p_id := fifth_id, slug := ''fifth'', createdAt := 500\<rparr>"
  have pub: "filter isPublished (posts sample_db) = [example_post, ?p2, ?p4, ?p5]"
    by (simp add: sample_db_def example_post_def)
  have srt: "newest_first [example_post, ?p2, ?p4, ?p5] = [?p5, ?p2, ?p4, example_post]"
    by (simp add: newest_first_def example_post_def)
  have sk: "skip_of (Num 2) (Num 2) = Num 2"
    using skip_of_exact[of 2 2] by simp
  have e: "list_posts sample_db (Some ''2'') (Some ''2'') None =
      Inr \<lparr>r_data = map (post_view_of sample_db) [?p4, example_post],
           r_page = Num 2, r_limit = Num 2, r_total = 4, r_pages = Num 2\<rparr>"
    by (simp add: list_posts_def page_of_def limit_of_def parse_fixtures or_default_def sk
        list_query_def find_window_def Let_def pub srt pages_of_def ceil_div_def)
  have u: "length (filter (\<lambda>p. \<not> isPublished p) (posts sample_db)) = 1"
    "map createdAt (posts sample_db) = [100, 400, 300, 200, 500]"
    by (simp_all add: sample_db_def example_post_def)
  from list_posts_window[OF e] e u show ?thesis
    by (simp add: view_id view_fields example_post_def)
qed


section \<open>Appending a comment\<close>











section \<open>Unique slugs at creation\<close>

lemma hello_slug: "generateSlug ''Hello World!!'' = ''hello-world''"
  by (simp add: generateSlug_def toLowerCase_def toLowerCase_char_def is_word_char_def)

lemma hello_trim: "trim ''Hello World!!'' = ''Hello World!!''"
  by (simp add: trim_def is_js_space_def)

lemma hello_suffixed: "suffixed ''hello-world'' (Suc 0) = ''hello-world-1''"
  by (simp add: suffixed_def show_nat.simps digit_char_def)

lemma hello_title: "b_title hello_body = Some ''Hello World!!''"
  by (simp add: hello_body_def)

lemma hello_document_valid:
  "isValidObjectId i \<Longrightarrow> generateUniqueSlug ps ''Hello World!!'' \<noteq> [] \<Longrightarrow>
   schema_valid (new_document ps alice hello_body None i n ''Hello World!!'')"
  by (simp add: schema_valid_def new_document_def hello_body_def hello_trim
      alice_def example_ids_valid example_ids_canonical)

text \<open>
  Claim C1 says that of two posts created one after the other from titles with the
  same base slug, the first gets the base slug and the second the base slug with suffix
  \<open>-1\<close>. The handler does compute \<open>hello-world-1\<close> for the second post, but a new
  document's title counts as modified, so the \<open>pre('save')\<close> hook overwrites the slug
  with the base slug again and the insert is rejected by the unique index: the second
  request is answered with status 400 and no second post exists.
\<close>

theorem second_create_same_title_rejected:
  "\<exists>st1 v1. create_post empty_db alice hello_body None example_id 100 = Inr (st1, v1) \<and>
     slug (v_post v1) = ''hello-world'' \<and>
     generateUniqueSlug (posts st1) ''Hello World!!'' = ''hello-world-1'' \<and>
     slug (pre_save True
            (new_document (posts st1) alice hello_body None second_id 200 ''Hello World!!''))
       = ''hello-world'' \<and>
     create_post st1 alice hello_body None second_id 200 = Inl DuplicateSlug \<and>
     http_status DuplicateSlug = 400"
proof -
  let ?d1 = "new_document [] alice hello_body None example_id 100 ''Hello World!!''"
  let ?p1 = "pre_save True ?d1"
  let ?d2 = "new_document [?p1] alice hello_body None second_id 200 ''Hello World!!''"
  have g0: "generateUniqueSlug [] ''Hello World!!'' = ''hello-world''"
    by (simp add: generateUniqueSlug_base slug_taken_def findOne_slug_def hello_slug)
  have s1: "slug ?p1 = ''hello-world''"
    by (simp add: pre_save_def new_document_def hello_trim hello_slug)
  have va: "schema_valid ?d1"
    by (rule hello_document_valid) (simp_all add: example_ids_valid g0)
  have n1: "save_new [] ?d1 = Inr ([?p1], ?p1)"
    by (simp add: save_new_def va insert_post_def Let_def)
  have c1: "create_post empty_db alice hello_body None example_id 100 =
              Inr (empty_db\<lparr>posts := [?p1]\<rparr>, created_view empty_db ?p1)"
    by (simp add: create_post_def hello_title empty_db_def n1)
  have t1: "slug_taken [?p1] ''hello-world''"
    by (simp add: slug_taken_def findOne_slug_def s1)
  have t2: "\<not> slug_taken [?p1] ''hello-world-1''"
    by (simp add: slug_taken_def findOne_slug_def s1)
  have g1: "generateUniqueSlug [?p1] ''Hello World!!'' = ''hello-world-1''"
    by (simp add: generateUniqueSlug_def Let_def hello_slug unique_loop_taken[OF t1]
        hello_suffixed unique_loop_free[OF t2])
  have s2: "slug (pre_save True ?d2) = ''hello-world''"
    by (simp add: pre_save_def new_document_def hello_trim hello_slug)
  have vb: "schema_valid ?d2"
    by (rule hello_document_valid) (simp_all add: example_ids_valid g1)
  have i2: "insert_post [?p1] (pre_save True ?d2) = Inl DuplicateSlug"
    by (simp add: insert_post_def s1 s2)
  have n2: "save_new [?p1] ?d2 = Inl DuplicateSlug"
    by (simp add: save_new_def vb i2 Let_def)
  have c2: "create_post (empty_db\<lparr>posts := [?p1]\<rparr>) alice hello_body None second_id 200
              = Inl DuplicateSlug"
    by (simp add: create_post_def hello_title n2)
  show ?thesis
    using c1 g1 s2 c2 s1 by (simp add: created_view_def)
qed


section \<open>View counting under concurrent detail reads\<close>

lemma get_post_steps:
  assumes "get_post st ident now = Inr (st', v, cs)"
  shows "posts st' =
     fst (read_step now (fst (read_step now (posts st) (Pending ident)))
            (snd (read_step now (posts st) (Pending ident))))"
  using assms by (auto simp: get_post_def read_step_def split: option.splits)

lemma find_update_first_key:
  "(\<And>x. P (f x) = P x) \<Longrightarrow> (\<And>x. key (f x) = key x) \<Longrightarrow>
   map_option key (find P (update_first Q f xs)) = map_option key (find P xs)"
  by (induction xs) auto

lemma lookup_inc_viewCount:
  "map_option p_id (lookup_post (inc_viewCount now j ps) ident) = map_option p_id (lookup_post ps ident)"
  by (simp add: lookup_post_def findOne_slug_def inc_viewCount_def find_update_first_key)

lemma stored_views_inc:
  "stored_views (inc_viewCount now i ps) i = map_option (\<lambda>v. v + 1) (stored_views ps i)"
  by (simp add: stored_views_def inc_viewCount_def find_update_first option.map_comp comp_def)

lemma valid_target_inc: "valid_target (inc_viewCount now j ps) i r = valid_target ps i r"
  by (simp add: valid_target_def lookup_inc_viewCount split: read_state.splits)

lemma filter_length_update:
  "k < length xs \<Longrightarrow>
   length (filter P (xs[k := y])) + (if P (xs ! k) then 1 else 0) =
   length (filter P xs) + (if P y then 1 else 0)"
proof (induction xs arbitrary: k)
  case Nil
  then show ?case by simp
next
  case (Cons a xs)
  show ?case
  proof (cases k)
    case 0
    then show ?thesis by simp
  next
    case (Suc n)
    with Cons.prems have "n < length xs" by simp
    from Cons.IH[OF this] Suc show ?thesis by simp
  qed
qed

lemma in_flight_update:
  "k < length rs \<Longrightarrow>
   in_flight (rs[k := r]) =
     in_flight rs - (if rs ! k \<noteq> Finished then 1 else 0) + (if r \<noteq> Finished then 1 else 0)"
  using filter_length_update[of k rs "\<lambda>r. r \<noteq> Finished" r]
  by (simp add: in_flight_def split: if_splits)

lemma list_all_update: "list_all P xs \<Longrightarrow> P y \<Longrightarrow> list_all P (xs[k := y])"
  by (induction xs arbitrary: k) (auto split: nat.splits)

lemma read_step_invariant:
  assumes "valid_target ps i r"
  shows "valid_target (fst (read_step now ps r)) i (snd (read_step now ps r)) \<and>
         (\<forall>q. valid_target (fst (read_step now ps r)) i q = valid_target ps i q) \<and>
         map_option (\<lambda>v. v + (if snd (read_step now ps r) \<noteq> Finished then 1 else 0))
            (stored_views (fst (read_step now ps r)) i) =
         map_option (\<lambda>v. v + (if r \<noteq> Finished then 1 else 0)) (stored_views ps i)"
proof (cases r)
  case (Pending ident)
  with assms obtain p where "lookup_post ps ident = Some p" "p_id p = i"
    by (auto simp: valid_target_def)
  with Pending show ?thesis
    by (simp add: read_step_def valid_target_def)
next
  case (Located j)
  with assms have "j = i" by (simp add: valid_target_def)
  with Located show ?thesis
    by (simp add: read_step_def valid_target_inc stored_views_inc option.map_comp comp_def)
       (simp add: valid_target_def)
next
  case Finished
  then show ?thesis by (simp add: read_step_def valid_target_def)
qed

lemma run_schedule_invariant:
  assumes "run_schedule sched (ps, rs) = (ps', rs')" and "list_all (valid_target ps i) rs"
  shows "map_option (\<lambda>v. v + in_flight rs') (stored_views ps' i) =
         map_option (\<lambda>v. v + in_flight rs) (stored_views ps i)"
  using assms
proof (induction sched arbitrary: ps rs)
  case Nil
  then show ?case by simp
next
  case (Cons a sched)
  obtain k now where a: "a = (k, now)" by (cases a)
  show ?case
  proof (cases "k < length rs")
    case False
    with Cons a show ?thesis by simp
  next
    case True
    let ?ps1 = "fst (read_step now ps (rs ! k))"
    let ?r1 = "snd (read_step now ps (rs ! k))"
    from Cons.prems(2) True have vk: "valid_target ps i (rs ! k)"
      by (simp add: list_all_length)
    note inv = read_step_invariant[OF vk, of now]
    from Cons.prems(1) a True have run: "run_schedule sched (?ps1, rs[k := ?r1]) = (ps', rs')"
      by simp
    have "list_all (valid_target ?ps1 i) rs"
      using Cons.prems(2) inv by (simp add: list_all_iff)
    moreover from inv have "valid_target ?ps1 i ?r1" by blast
    ultimately have all1: "list_all (valid_target ?ps1 i) (rs[k := ?r1])"
      by (rule list_all_update)
    from Cons.IH[OF run all1]
    have "map_option (\<lambda>v. v + in_flight rs') (stored_views ps' i) =
          map_option (\<lambda>v. v + in_flight (rs[k := ?r1])) (stored_views ?ps1 i)" .
    also have "\<dots> = map_option (\<lambda>v. v + in_flight rs) (stored_views ps i)"
    proof -
      have e: "in_flight (rs[k := ?r1]) =
            in_flight rs - (if rs ! k \<noteq> Finished then 1 else 0) + (if ?r1 \<noteq> Finished then 1 else 0)"
        using True by (rule in_flight_update)
      from inv have s: "map_option (\<lambda>v. v + (if ?r1 \<noteq> Finished then 1 else 0)) (stored_views ?ps1 i) =
         map_option (\<lambda>v. v + (if rs ! k \<noteq> Finished then 1 else 0)) (stored_views ps i)"
        by simp
      show ?thesis
      proof (cases "stored_views ps i")
        case None
        with s show ?thesis by (cases "stored_views ?ps1 i") simp_all
      next
        case (Some v)
        with s obtain v1 where v1: "stored_views ?ps1 i = Some v1"
          by (cases "stored_views ?ps1 i") simp_all
        with s Some have "v1 + (if ?r1 \<noteq> Finished then 1 else 0) = v + (if rs ! k \<noteq> Finished then 1 else 0)"
          by simp
        with e v1 Some show ?thesis by simp
      qed
    qed
    finally show ?thesis .
  qed
qed

text \<open>
  Claim C3. Take any number of detail requests whose identifiers (ids or slugs) all
  resolve to the same post, and any interleaving of their storage operations that
  runs every request to its end. Then the stored view counter of that post has grown by
  exactly the number of requests: each \<open>$inc\<close> adds one to the counter as stored at
  that moment, so no update is lost.
\<close>

theorem concurrent_views_counted:
  assumes "list_all (\<lambda>ident. map_option p_id (lookup_post ps ident) = Some i) idents"
    and "run_schedule sched (ps, map Pending idents) = (ps', rs')"
    and "list_all (\<lambda>r. r = Finished) rs'"
  shows "map_option viewCount (find (\<lambda>p. p_id p = i) ps') =
         map_option (\<lambda>p. viewCount p + int (length idents)) (find (\<lambda>p. p_id p = i) ps)"
proof -
  have v: "list_all (valid_target ps i) (map Pending idents)"
    using assms(1) by (simp add: list_all_iff valid_target_def)
  have f0: "in_flight (map Pending idents) = int (length idents)"
    by (simp add: in_flight_def filter_map comp_def)
  have "filter (\<lambda>r. r \<noteq> Finished) rs' = []"
    using assms(3) by (simp add: list_all_iff filter_empty_conv)
  then have f1: "in_flight rs' = 0" by (simp add: in_flight_def)
  from run_schedule_invariant[OF assms(2) v] f0 f1
  show ?thesis by (simp add: stored_views_def option.map_comp comp_def)
qed

lemma slugs_not_ids:
  "\<not> isValidObjectId ''hello-world''" "\<not> isValidObjectId ''search''"
  by (simp_all add: isValidObjectId_def)

lemma example_lookups:
  "lookup_post (posts example_db) example_id = Some example_post"
  "lookup_post (posts example_db) ''hello-world'' = Some example_post"
  "lookup_post (posts example_db) ''search'' = None"
  by (simp_all add: lookup_post_def findOne_slug_def example_ids_valid slugs_not_ids
      example_ids_canonical example_db_def example_post_def)

theorem concurrent_views_counted_witness:
  "\<exists>ps' rs'.
     run_schedule [(0, 201), (1, 202), (0, 203), (1, 204)]
       (posts example_db, map Pending [example_id, ''hello-world'']) = (ps', rs') \<and>
     list_all (\<lambda>r. r = Finished) rs' \<and>
     map_option viewCount (find (\<lambda>p. p_id p = example_id) ps') = Some 2"
proof -
  let ?ps = "posts example_db"
  have ps: "?ps = [example_post]" by (simp add: example_db_def)
  have pid: "p_id example_post = example_id" by (simp add: example_post_def)
  have l: "list_all (\<lambda>ident. map_option p_id (lookup_post ?ps ident) = Some example_id)
             [example_id, ''hello-world'']"
    by (simp add: example_lookups pid)
  have 1: "read_step 201 ?ps (Pending example_id) = (?ps, Located example_id)"
    by (simp add: read_step_def example_lookups pid)
  have 2: "read_step 202 ?ps (Pending ''hello-world'') = (?ps, Located example_id)"
    by (simp add: read_step_def example_lookups pid)
  have 3: "read_step t ps1 (Located example_id) = (inc_viewCount t example_id ps1, Finished)" for t ps1
    by (simp add: read_step_def)
  have r: "run_schedule [(0, 201), (1, 202), (0, 203), (1, 204)]
       (?ps, map Pending [example_id, ''hello-world'']) =
       (inc_viewCount 204 example_id (inc_viewCount 203 example_id ?ps), [Finished, Finished])"
    by (simp add: 1 2 3)
  have f: "find (\<lambda>p. p_id p = example_id) ?ps = Some example_post"
    by (simp add: ps pid)
  from concurrent_views_counted[OF l r] f show ?thesis
    using r by (simp add: example_post_def)
qed

text \<open>
  The same interleaving with the read-modify-write of \<open>incrementViewCount\<close> loses one
  of the two updates: both requests read 0 and both write 1.
\<close>

lemma read_modify_write_loses_update:
  "\<exists>ps' rs'.
     run_rmw_schedule [(0, 201), (1, 202), (0, 203), (1, 204)]
       (posts example_db, map RmwPending [example_id, ''hello-world'']) = (ps', rs') \<and>
     list_all (\<lambda>r. r = RmwFinished) rs' \<and>
     map_option viewCount (find (\<lambda>p. p_id p = example_id) ps') = Some 1"
proof -
  let ?ps = "posts example_db"
  have ps: "?ps = [example_post]" by (simp add: example_db_def)
  have pid: "p_id example_post = example_id" "viewCount example_post = 0"
    by (simp_all add: example_post_def)
  have 1: "rmw_step 201 ?ps (RmwPending example_id) = (?ps, RmwLoaded example_id 0)"
    by (simp add: rmw_step_def example_lookups pid)
  have 2: "rmw_step 202 ?ps (RmwPending ''hello-world'') = (?ps, RmwLoaded example_id 0)"
    by (simp add: rmw_step_def example_lookups pid)
  show ?thesis
    by (simp add: 1 2) (simp add: rmw_step_def ps pid)
qed


section \<open>Routing of search requests\<close>

text \<open>No request reaches the search handler: \<open>/:id\<close> is registered before \<open>/search\<close>.\<close>

lemma search_route_unreachable: "dispatch routes m path \<noteq> Some (SearchPosts, params)"
proof (cases path)
  case Nil
  then show ?thesis by (cases m) (simp_all add: routes_def)
next
  case (Cons x xs)
  note c1 = this
  show ?thesis
  proof (cases xs)
    case Nil
    with c1 show ?thesis by (cases m) (simp_all add: routes_def)
  next
    case (Cons y ys)
    with c1 show ?thesis
      by (cases m; cases ys) (auto simp: routes_def split: if_splits)
  qed
qed

text \<open>
  Claim C5 describes the answer to a search request. The search handler would give it
  (the last two conjuncts, for the pattern \<open>hello\<close>), but the router hands
  \<open>GET /api/posts/search\<close> to the detail route with \<open>id = "search"\<close>: the request is
  answered from a slug lookup, here with NotFound (404), with or without a query.
\<close>

theorem search_request_answered_by_detail_route:
  "dispatch routes GET [''search''] = Some (GetPost, [''search'']) \<and>
   serve_get literal_engine example_db [''search''] [(''q'', ''hello'')] 300 = Inl NotFound \<and>
   serve_get literal_engine example_db [''search''] [] 300 = Inl NotFound \<and>
   http_status NotFound = 404 \<and>
   search_posts literal_engine example_db (Some ''hello'') =
     Inr [post_view_of example_db example_post] \<and>
   search_posts literal_engine example_db None = Inl ValidationError"
proof -
  have d: "dispatch routes GET [''search''] = Some (GetPost, [''search''])"
    by (simp add: routes_def)
  have g: "get_post example_db ''search'' 300 = Inl NotFound"
    by (simp add: get_post_def example_lookups)
  have s: "serve_get literal_engine example_db [''search''] q 300 = Inl NotFound" for q
    by (simp add: serve_get_def d g)
  have m: "search_query literal_engine ''hello'' example_post"
    by (simp add: search_query_def literal_engine_def example_post_def toLowerCase_def
        toLowerCase_char_def)
  have "search_posts literal_engine example_db (Some ''hello'') =
      Inr [post_view_of example_db example_post]"
    using m by (simp add: search_posts_def find_window_def newest_first_def Let_def)
       (simp add: literal_engine_def example_db_def)
  then show ?thesis
    using d s by (simp add: search_posts_def)
qed

end
